theory Spec2Isabelle
  imports Complex_Main "HOL-Library.Sublist" "HOL-Library.Log_Nat"
begin

section \<open>JavaScript strings and the string operations the viewer uses\<close>

text \<open>
  A JavaScript string is a sequence of UTF-16 code units. It is modelled as a
  \<open>string\<close> whose characters stand for the code units 0 to 255 (the Latin-1 range);
  every operation below maps that range into itself.
\<close>

definition code :: "char \<Rightarrow> nat" where
  "code c = of_char c"

text \<open>\<open>WhiteSpace\<close> and \<open>LineTerminator\<close> of ECMAScript, below code unit 256:
  TAB, LF, VT, FF, CR, SP and NBSP.\<close>

definition isWhiteSpace :: "char \<Rightarrow> bool" where
  "isWhiteSpace c = (code c = 9 \<or> code c = 10 \<or> code c = 11 \<or> code c = 12
     \<or> code c = 13 \<or> code c = 32 \<or> code c = 160)"

text \<open>The character class \<open>[A-Z]\<close> of the regular expression in \<open>name.replace\<close>.\<close>

definition isUpperAZ :: "char \<Rightarrow> bool" where
  "isUpperAZ c = (65 \<le> code c \<and> code c \<le> 90)"

text \<open>\<open>String.prototype.toLowerCase\<close>: the letters A to Z and the Latin-1 capitals
  (192 to 222 without the multiplication sign 215) move up by 32.\<close>

definition toLowerChar :: "char \<Rightarrow> char" where
  "toLowerChar c =
     (if (65 \<le> code c \<and> code c \<le> 90) \<or> (192 \<le> code c \<and> code c \<le> 222 \<and> code c \<noteq> 215)
      then char_of (code c + 32) else c)"

definition toLowerCase :: "string \<Rightarrow> string" where
  "toLowerCase s = map toLowerChar s"

text \<open>\<open>String.prototype.trim\<close>.\<close>

definition trim :: "string \<Rightarrow> string" where
  "trim s = rev (dropWhile isWhiteSpace (rev (dropWhile isWhiteSpace s)))"

text \<open>\<open>s.split(c)\<close> for a one-character separator: the empty string gives one empty
  part, and two separators in a row give an empty part between them.\<close>

fun split :: "char \<Rightarrow> string \<Rightarrow> string list" where
  "split c [] = [[]]"
| "split c (x # xs) =
     (if x = c then [] # split c xs
      else (case split c xs of [] \<Rightarrow> [[x]] | p # ps \<Rightarrow> (x # p) # ps))"

text \<open>\<open>s.startsWith(p)\<close>.\<close>

definition startsWith :: "string \<Rightarrow> string \<Rightarrow> bool" where
  "startsWith s p = (take (length p) s = p)"

text \<open>\<open>s.includes(t)\<close>: \<open>t\<close> starts at some position of \<open>s\<close>.\<close>

fun includesStr :: "string \<Rightarrow> string \<Rightarrow> bool" where
  "includesStr [] t = (t = [])"
| "includesStr (x # xs) t = (startsWith (x # xs) t \<or> includesStr xs t)"

text \<open>\<open>name.replace(/([A-Z])/g, ' $1')\<close>: a space goes in front of every capital
  letter A to Z, the first character included.\<close>

definition spaceBeforeCapitals :: "string \<Rightarrow> string" where
  "spaceBeforeCapitals s = concat (map (\<lambda>c. if isUpperAZ c then [CHR '' '', c] else [c]) s)"

section \<open>JavaScript numbers\<close>

text \<open>
  A JavaScript number is an IEEE 754 binary64 value: \<open>NaN\<close>, an infinity, or a finite
  double, held here as the rational it denotes. Minus zero is identified with zero:
  \<open>||\<close>, \<open>/ 10\<close>, \<open>Math.floor\<close>, \<open>* 10\<close>, \<open>+ 9\<close>, \<open>>=\<close> and \<open><=\<close>, the only
  operations the viewer applies to a number, give the same answers for both zeros.
\<close>

datatype number = NaN | Finite rat | PosInfinity | NegInfinity

text \<open>The power of two with an integer exponent, and the exponent of the binade of a
  positive rational: \<open>2 ^ ilog2 x \<le> x < 2 ^ (ilog2 x + 1)\<close>.\<close>

definition pow2 :: "int \<Rightarrow> rat" where
  "pow2 k = 2 powi k"

definition ilog2 :: "rat \<Rightarrow> int" where
  "ilog2 x =
     (if 1 \<le> x then int (floorlog 2 (nat \<lfloor>x\<rfloor>)) - 1
      else - int (floorlog 2 (nat (\<lceil>1 / x\<rceil> - 1))))"

text \<open>Rounding to the nearest integer, a tie going to the even one.\<close>

definition roundHalfEven :: "rat \<Rightarrow> int" where
  "roundHalfEven m =
     (let n = \<lfloor>m\<rfloor>; f = m - of_int n
      in if f < 1 / 2 then n else if 1 / 2 < f then n + 1
         else if even n then n else n + 1)"

text \<open>
  The number value of a rational: the nearest double, ties to the even significand.
  The significand has 53 bits, the least exponent is \<open>-1022\<close> (below it the spacing
  stays \<open>2 ^ -1074\<close>), and a result of \<open>2 ^ 1024\<close> or more is an infinity.
\<close>

definition roundToDouble :: "rat \<Rightarrow> number" where
  "roundToDouble x =
     (if x = 0 then Finite 0
      else
        let a = \<bar>x\<bar>;
            e = ilog2 a;
            q = max e (- 1022) - 52;
            r = of_int (roundHalfEven (a / pow2 q)) * pow2 q
        in if pow2 1024 \<le> r then (if 0 < x then PosInfinity else NegInfinity)
           else Finite (if 0 < x then r else - r))"

text \<open>
  The arithmetic of \<open>isInDecade\<close>. The right operand of \<open>/\<close>, \<open>*\<close> and \<open>+\<close> is a
  positive literal of the program (10, 10 and 9), so it is a rational here; an infinity
  stays what it is and \<open>NaN\<close> stays \<open>NaN\<close>. \<open>Math.floor\<close> is exact.
\<close>

definition jsDivide :: "number \<Rightarrow> rat \<Rightarrow> number" where
  "jsDivide x d = (case x of Finite a \<Rightarrow> roundToDouble (a / d) | _ \<Rightarrow> x)"

definition jsTimes :: "number \<Rightarrow> rat \<Rightarrow> number" where
  "jsTimes x d = (case x of Finite a \<Rightarrow> roundToDouble (a * d) | _ \<Rightarrow> x)"

definition jsPlus :: "number \<Rightarrow> rat \<Rightarrow> number" where
  "jsPlus x d = (case x of Finite a \<Rightarrow> roundToDouble (a + d) | _ \<Rightarrow> x)"

definition mathFloor :: "number \<Rightarrow> number" where
  "mathFloor x = (case x of Finite a \<Rightarrow> Finite (of_int \<lfloor>a\<rfloor>) | _ \<Rightarrow> x)"

text \<open>\<open>a <= b\<close> and \<open>a >= b\<close>: false when an operand is \<open>NaN\<close>.\<close>

fun jsLe :: "number \<Rightarrow> number \<Rightarrow> bool" where
  "jsLe NaN b = False"
| "jsLe a NaN = False"
| "jsLe NegInfinity b = True"
| "jsLe a PosInfinity = True"
| "jsLe (Finite a) (Finite b) = (a \<le> b)"
| "jsLe a b = False"

definition jsGe :: "number \<Rightarrow> number \<Rightarrow> bool" where
  "jsGe a b = jsLe b a"

text \<open>\<open>isNaN\<close>, and the falsy numbers of \<open>||\<close>: \<open>NaN\<close> and zero.\<close>

definition isNaN :: "number \<Rightarrow> bool" where
  "isNaN x = (x = NaN)"

definition falsy :: "number \<Rightarrow> bool" where
  "falsy x = (x = NaN \<or> x = Finite 0)"

subsection \<open>\<open>parseInt\<close> with no radix argument\<close>

definition digitVal :: "char \<Rightarrow> nat option" where
  "digitVal c =
     (if 48 \<le> code c \<and> code c \<le> 57 then Some (code c - 48)
      else if 97 \<le> code c \<and> code c \<le> 122 then Some (code c - 87)
      else if 65 \<le> code c \<and> code c \<le> 90 then Some (code c - 55)
      else None)"

definition isRadixDigit :: "nat \<Rightarrow> char \<Rightarrow> bool" where
  "isRadixDigit R c = (case digitVal c of None \<Rightarrow> False | Some d \<Rightarrow> d < R)"

definition digitsValue :: "nat \<Rightarrow> string \<Rightarrow> nat" where
  "digitsValue R Z = foldl (\<lambda>acc c. acc * R + (case digitVal c of None \<Rightarrow> 0 | Some d \<Rightarrow> d)) 0 Z"

text \<open>
  The steps of ECMAScript's \<open>parseInt(string)\<close>: leading white space is dropped, one
  sign is read, a prefix \<open>0x\<close> or \<open>0X\<close> switches to radix 16, and the longest run of
  digits of the radix is the mathematical integer. An empty run gives \<open>NaN\<close>; otherwise
  the result is the number value of the signed integer, that is, the nearest double.
  (For a decimal run of more than 20 significant digits ECMAScript lets an engine round
  from a shortened run; the model rounds the full run, as the current engines do.)
\<close>

definition parseInt :: "string \<Rightarrow> number" where
  "parseInt s =
     (let S = dropWhile isWhiteSpace s;
          sign = (if S \<noteq> [] \<and> hd S = CHR ''-'' then - 1 else 1 :: int);
          S1 = (if S \<noteq> [] \<and> (hd S = CHR ''+'' \<or> hd S = CHR ''-'') then tl S else S);
          hex = (take 2 S1 = ''0x'' \<or> take 2 S1 = ''0X'');
          R = (if hex then 16 else 10);
          S2 = (if hex then drop 2 S1 else S1);
          Z = takeWhile (isRadixDigit R) S2
      in if Z = [] then NaN else roundToDouble (of_int (sign * int (digitsValue R Z))))"

section \<open>The record parser\<close>

record Logo =
  logo_id :: int
  logo_name :: string
  logo_year :: number
  logo_color :: string
  logo_type :: string
  logo_imageUrl :: string
  logo_source :: string

text \<open>The three \<open>throw new Error(...)\<close> of \<open>parseLogoFromFilename\<close>.\<close>

datatype error = FilenameRequired | InvalidFilenameFormat | MissingRequiredParts

text \<open>The record the \<open>catch\<close> block returns.\<close>

definition fallbackLogo :: "int \<Rightarrow> Logo" where
  "fallbackLogo i =
     \<lparr>logo_id = i, logo_name = ''Invalid Logo'', logo_year = Finite 2000, logo_color = ''black'',
      logo_type = ''serif'', logo_imageUrl = ''/logos/default.png'',
      logo_source = ''https://example.com''\<rparr>"

text \<open>\<open>parseInt(year) || 2000\<close>.\<close>

definition yearOrDefault :: "string \<Rightarrow> number" where
  "yearOrDefault y = (if falsy (parseInt y) then Finite 2000 else parseInt y)"

text \<open>The body of the \<open>try\<close> block; \<open>Inl\<close> is a thrown error.\<close>

definition parseBody :: "string \<Rightarrow> int \<Rightarrow> error + Logo" where
  "parseBody filename i =
     (if filename = [] then Inl FilenameRequired
      else
        let withoutExtension = hd (split CHR ''.'' filename);
            parts = split CHR ''|'' withoutExtension
        in if length parts \<noteq> 5 then Inl InvalidFilenameFormat
           else (case parts of
              [name, color, source, type, year] \<Rightarrow>
                if name = [] \<or> color = [] \<or> source = [] \<or> type = [] \<or> year = []
                then Inl MissingRequiredParts
                else Inr \<lparr>logo_id = i,
                          logo_name = trim (spaceBeforeCapitals name),
                          logo_year = yearOrDefault year,
                          logo_color = toLowerCase color,
                          logo_type = toLowerCase type,
                          logo_imageUrl = ''/logos/'' @ filename,
                          logo_source = (if startsWith source ''www''
                                         then ''https://'' @ source else source)\<rparr>
            | _ \<Rightarrow> Inl InvalidFilenameFormat))"

text \<open>\<open>parseLogoFromFilename\<close>: the \<open>try\<close> block with its \<open>catch\<close>, which turns every
  thrown error into the fallback record.\<close>

definition parseLogoFromFilename :: "string \<Rightarrow> int \<Rightarrow> error + Logo" where
  "parseLogoFromFilename filename i =
     (case parseBody filename i of Inl e \<Rightarrow> Inr (fallbackLogo i) | Inr logo \<Rightarrow> Inr logo)"

text \<open>
  The first variant of the parser in \<open>page.tsx\<close> has no length check: it destructures
  the first five parts, \<open>const [name, color, source, type, year] = withoutExtension.split('|')\<close>,
  and returns the fallback record when one of them is falsy. A part that is not there
  is \<open>undefined\<close>, which the guard treats like the empty string. Nothing in its
  \<open>try\<close> block throws on a string.
\<close>

definition partOrUndefined :: "string list \<Rightarrow> nat \<Rightarrow> string" where
  "partOrUndefined parts k = (if k < length parts then parts ! k else [])"

definition parseLogoFromFilename_page :: "string \<Rightarrow> int \<Rightarrow> Logo" where
  "parseLogoFromFilename_page filename i =
     (let withoutExtension = hd (split CHR ''.'' filename);
          parts = split CHR ''|'' withoutExtension;
          name = partOrUndefined parts 0;
          color = partOrUndefined parts 1;
          source = partOrUndefined parts 2;
          type = partOrUndefined parts 3;
          year = partOrUndefined parts 4
      in if name = [] \<or> color = [] \<or> source = [] \<or> type = [] \<or> year = []
         then fallbackLogo i
         else \<lparr>logo_id = i,
               logo_name = trim (spaceBeforeCapitals name),
               logo_year = yearOrDefault year,
               logo_color = toLowerCase color,
               logo_type = toLowerCase type,
               logo_imageUrl = ''/logos/'' @ filename,
               logo_source = (if startsWith source ''www''
                              then ''https://'' @ source else source)\<rparr>)"

section \<open>The query engine\<close>

text \<open>\<open>isInDecade\<close>, in the arithmetic of numbers.\<close>

definition isInDecade :: "number \<Rightarrow> number \<Rightarrow> bool" where
  "isInDecade year searchYear =
     (let decadeStart = jsTimes (mathFloor (jsDivide searchYear 10)) 10;
          decadeEnd = jsPlus decadeStart 9
      in jsGe year decadeStart \<and> jsLe year decadeEnd)"

record Filters =
  filters_color :: string
  filters_type :: string

text \<open>The year branch of the search: \<open>searchYear = parseInt(searchTerm)\<close> and
  \<open>yearMatch = !isNaN(searchYear) ? isInDecade(logo.year, searchYear) : false\<close>.\<close>

definition yearMatch :: "string \<Rightarrow> number \<Rightarrow> bool" where
  "yearMatch searchTerm year =
     (let searchYear = parseInt searchTerm
      in if \<not> isNaN searchYear then isInDecade year searchYear else False)"

text \<open>The callback of \<open>logos.filter\<close> in \<open>filteredLogos\<close>. An unset filter is the empty
  string. No operation of the body throws on strings and numbers, so its \<open>catch\<close> is
  never entered.\<close>

definition matchesLogo :: "string \<Rightarrow> Filters \<Rightarrow> Logo \<Rightarrow> bool" where
  "matchesLogo searchTerm filters logo =
     (let searchLower = toLowerCase searchTerm;
          matchesSearch = (includesStr (toLowerCase (logo_name logo)) searchLower
                           \<or> yearMatch searchTerm (logo_year logo));
          matchesColor = (filters_color filters = [] \<or> logo_color logo = filters_color filters);
          matchesType = (filters_type filters = [] \<or> logo_type logo = filters_type filters)
      in matchesSearch \<and> matchesColor \<and> matchesType)"

definition filteredLogos :: "string \<Rightarrow> Filters \<Rightarrow> Logo list \<Rightarrow> Logo list" where
  "filteredLogos searchTerm filters logos = filter (matchesLogo searchTerm filters) logos"

text \<open>
  The selectors. \<open>handleColorSelect\<close> of \<open>ColorSelector\<close> hands the parent's callback
  the empty string when the clicked colour is the selected one, and the clicked colour
  otherwise (\<open>selectedColor || ''\<close> is \<open>selectedColor\<close> on strings);
  \<open>handleTypeSelect\<close> of \<open>TypographySelector\<close> does the same for the type. The callbacks
  of the viewer store the value: \<open>setFilters({...filters, color})\<close> and
  \<open>setFilters({...filters, type})\<close>. They do not throw, so the \<open>catch\<close> blocks of
  the handlers are never entered.
\<close>

definition handleColorSelect :: "string \<Rightarrow> (string \<Rightarrow> 's) \<Rightarrow> string \<Rightarrow> 's" where
  "handleColorSelect selectedColor onColorSelect colorId =
     onColorSelect (if selectedColor = colorId then [] else colorId)"

definition handleTypeSelect :: "string \<Rightarrow> (string \<Rightarrow> 's) \<Rightarrow> string \<Rightarrow> 's" where
  "handleTypeSelect selected onSelect t = onSelect (if selected = t then [] else t)"

definition onColorSelect :: "Filters \<Rightarrow> string \<Rightarrow> Filters" where
  "onColorSelect filters color = filters\<lparr>filters_color := color\<rparr>"

definition onSelect :: "Filters \<Rightarrow> string \<Rightarrow> Filters" where
  "onSelect filters t = filters\<lparr>filters_type := t\<rparr>"

text \<open>A click on a colour button and on a typography button, as the viewer wires the
  selectors: the selected value is the one in \<open>filters\<close>.\<close>

definition clickColor :: "Filters \<Rightarrow> string \<Rightarrow> Filters" where
  "clickColor filters colorId =
     handleColorSelect (filters_color filters) (onColorSelect filters) colorId"

definition clickType :: "Filters \<Rightarrow> string \<Rightarrow> Filters" where
  "clickType filters t = handleTypeSelect (filters_type filters) (onSelect filters) t"

text \<open>The values the two buttons of \<open>TypographySelector\<close> pass to \<open>handleTypeSelect\<close>.\<close>

definition typographyButtons :: "string list" where
  "typographyButtons = [''serif'', ''sans-serif'']"

section \<open>The specification's vocabulary\<close>

text \<open>Extension removal as the specification words it: everything from the first
  \<open>.\<close> onward is dropped.\<close>

definition stripExtension :: "string \<Rightarrow> string" where
  "stripExtension filename = takeWhile (\<lambda>c. c \<noteq> CHR ''.'') filename"

text \<open>The fields of a raw identifier, as far as it has them.\<close>

definition rawFields :: "string \<Rightarrow> string list" where
  "rawFields filename = split CHR ''|'' (stripExtension filename)"

text \<open>The failure condition of the specification: the input is empty, the stripped
  identifier does not split into exactly five parts, or one of the parts is empty.\<close>

definition malformed :: "string \<Rightarrow> bool" where
  "malformed filename =
     (filename = [] \<or> length (rawFields filename) \<noteq> 5 \<or> [] \<in> set (rawFields filename))"

text \<open>The unconstrained query: no colour and no type selected.\<close>

definition noFilters :: Filters where
  "noFilters = \<lparr>filters_color = [], filters_type = []\<rparr>"

text \<open>
  Two characters are the same letter when they are equal or one is the capital of the
  other; in ASCII and Latin-1 the small letter is 32 above its capital. A string
  contains a term case-insensitively when, at some position, its next characters match
  the term letter by letter.
\<close>

definition isCapital :: "char \<Rightarrow> bool" where
  "isCapital c = ((65 \<le> code c \<and> code c \<le> 90) \<or> (192 \<le> code c \<and> code c \<le> 222 \<and> code c \<noteq> 215))"

definition sameLetter :: "char \<Rightarrow> char \<Rightarrow> bool" where
  "sameLetter c d =
     (c = d \<or> (isCapital c \<and> code d = code c + 32) \<or> (isCapital d \<and> code c = code d + 32))"

fun containsIgnoringCase :: "string \<Rightarrow> string \<Rightarrow> bool" where
  "containsIgnoringCase [] t = (t = [])"
| "containsIgnoringCase (x # xs) t =
     (list_all2 sameLetter (take (length t) (x # xs)) t \<or> containsIgnoringCase xs t)"

text \<open>A decimal digit, a hexadecimal digit, a term that opens with the hexadecimal
  prefix, the sign a term carries after its leading white space, and the term without
  white space and sign.\<close>

definition isDecimalDigit :: "char \<Rightarrow> bool" where
  "isDecimalDigit c = (48 \<le> code c \<and> code c \<le> 57)"

definition isHexDigit :: "char \<Rightarrow> bool" where
  "isHexDigit c = ((48 \<le> code c \<and> code c \<le> 57) \<or> (97 \<le> code c \<and> code c \<le> 102)
     \<or> (65 \<le> code c \<and> code c \<le> 70))"

definition hexPrefix :: "string \<Rightarrow> bool" where
  "hexPrefix s = (take 2 s = ''0x'' \<or> take 2 s = ''0X'')"

definition signOf :: "string \<Rightarrow> int" where
  "signOf s =
     (let S = dropWhile isWhiteSpace s
      in if S \<noteq> [] \<and> hd S = CHR ''-'' then - 1 else 1)"

definition unsigned :: "string \<Rightarrow> string" where
  "unsigned s =
     (let S = dropWhile isWhiteSpace s
      in if S \<noteq> [] \<and> (hd S = CHR ''+'' \<or> hd S = CHR ''-'') then tl S else S)"

section \<open>Rounding to a double\<close>

lemma pow2_pos: "0 < pow2 k"
  by (simp add: pow2_def)

lemma pow2_add: "pow2 (a + b) = pow2 a * pow2 b"
  by (simp add: pow2_def power_int_add)

lemma pow2_less_iff: "pow2 a < pow2 b \<longleftrightarrow> a < b"
  unfolding pow2_def
  by (metis linorder_not_less one_less_numeral_iff order_less_irrefl power_int_increasing power_int_strict_increasing semiring_norm(76) order_le_less)

lemma pow2_le_iff: "pow2 a \<le> pow2 b \<longleftrightarrow> a \<le> b"
  using pow2_less_iff [of b a] by (auto simp: not_less [symmetric])

lemma pow2_nat: "pow2 (int n) = 2 ^ n"
  by (simp add: pow2_def)

lemma pow2_neg_nat: "pow2 (- int n) = 1 / 2 ^ n"
  by (simp add: pow2_def power_int_minus_divide)

lemma ilog2_bounds:
  assumes "0 < x"
  shows "pow2 (ilog2 x) \<le> x \<and> x < pow2 (ilog2 x + 1)"
proof (cases "1 \<le> x")
  case True
  define n where "n = nat \<lfloor>x\<rfloor>"
  define L where "L = floorlog 2 n"
  from True have n1: "1 \<le> n" by (simp add: n_def le_nat_iff)
  then have b: "2 ^ (L - 1) \<le> n \<and> n < 2 ^ L"
    unfolding L_def using floorlog_bounds [of n 2] by simp
  from n1 have L1: "1 \<le> L"
    unfolding L_def by (simp add: floorlog_def)
  have e: "ilog2 x = int (L - 1)"
    using True L1 by (simp add: ilog2_def L_def n_def)
  have nx: "of_nat n \<le> x" "x < of_nat n + 1"
    using True by (simp_all add: n_def) linarith+
  have "(of_nat (2 ^ (L - 1)) :: rat) \<le> of_nat n"
    using b by (simp only: of_nat_le_iff)
  then have "(2::rat) ^ (L - 1) \<le> of_nat n"
    by simp
  with nx have "(2::rat) ^ (L - 1) \<le> x"
    by linarith
  then have lo: "pow2 (ilog2 x) \<le> x"
    by (simp only: e pow2_nat)
  have "Suc n \<le> 2 ^ L" using b by simp
  then have "(of_nat (Suc n) :: rat) \<le> of_nat (2 ^ L)"
    by (simp only: of_nat_le_iff)
  then have "of_nat n + 1 \<le> (2::rat) ^ L"
    by simp
  with nx have "x < 2 ^ L" by linarith
  moreover have "ilog2 x + 1 = int L" using e L1 by simp
  ultimately have "x < pow2 (ilog2 x + 1)"
    by (simp only: pow2_nat)
  with lo show ?thesis by simp
next
  case False
  define y where "y = 1 / x"
  define c where "c = \<lceil>y\<rceil>"
  define n where "n = nat (c - 1)"
  define L where "L = floorlog 2 n"
  from False assms have y1: "1 < y" by (simp add: y_def)
  then have c2: "2 \<le> c" unfolding c_def by linarith
  then have n1: "1 \<le> n" by (simp add: n_def)
  then have b: "2 ^ (L - 1) \<le> n \<and> n < 2 ^ L"
    unfolding L_def using floorlog_bounds [of n 2] by simp
  from n1 have L1: "1 \<le> L"
    unfolding L_def by (simp add: floorlog_def)
  have e: "ilog2 x = - int L"
    using False by (simp add: ilog2_def L_def n_def c_def y_def)
  have cy: "y \<le> of_int c" "of_int c - 1 < y"
    unfolding c_def by linarith+
  have nc: "(of_nat n :: rat) = of_int c - 1"
    using c2 by (simp add: n_def)
  have "Suc n \<le> 2 ^ L" using b by simp
  then have "(of_nat (Suc n) :: rat) \<le> of_nat (2 ^ L)"
    by (simp only: of_nat_le_iff)
  then have "of_nat n + 1 \<le> (2::rat) ^ L"
    by simp
  with nc cy have yL: "y \<le> 2 ^ L" by linarith
  have "(of_nat (2 ^ (L - 1)) :: rat) \<le> of_nat n"
    using b by (simp only: of_nat_le_iff)
  then have "(2::rat) ^ (L - 1) \<le> of_nat n"
    by simp
  with nc cy have Ly: "2 ^ (L - 1) < y" by linarith
  from yL assms have "1 / 2 ^ L \<le> x"
    by (simp add: y_def field_simps)
  then have lo: "pow2 (ilog2 x) \<le> x"
    by (simp only: e pow2_neg_nat)
  from Ly assms have "x < 1 / 2 ^ (L - 1)"
    by (simp add: y_def field_simps)
  moreover have "ilog2 x + 1 = - int (L - 1)" using e L1 by simp
  ultimately have "x < pow2 (ilog2 x + 1)"
    by (simp only: pow2_neg_nat)
  with lo show ?thesis by simp
qed

lemma ilog2_eqI:
  assumes "0 < x" and "pow2 e \<le> x" and "x < pow2 (e + 1)"
  shows "ilog2 x = e"
proof -
  from ilog2_bounds [OF assms(1)]
  have b: "pow2 (ilog2 x) \<le> x" "x < pow2 (ilog2 x + 1)" by simp_all
  from assms(2) b(2) have "pow2 e < pow2 (ilog2 x + 1)" by simp
  then have "e < ilog2 x + 1" by (simp add: pow2_less_iff)
  moreover from b(1) assms(3) have "pow2 (ilog2 x) < pow2 (e + 1)" by simp
  then have "ilog2 x < e + 1" by (simp add: pow2_less_iff)
  ultimately show ?thesis by simp
qed

lemma roundHalfEven_err: "\<bar>of_int (roundHalfEven m) - m\<bar> \<le> 1 / 2"
proof -
  have f: "of_int \<lfloor>m\<rfloor> \<le> m" "m < of_int \<lfloor>m\<rfloor> + 1"
    by linarith+
  show ?thesis
  proof (cases "m - of_int \<lfloor>m\<rfloor> < 1 / 2")
    case True
    then have "roundHalfEven m = \<lfloor>m\<rfloor>" by (simp add: roundHalfEven_def)
    with True f show ?thesis by (simp add: abs_le_iff)
  next
    case False
    then have "roundHalfEven m = \<lfloor>m\<rfloor> \<and> m - of_int \<lfloor>m\<rfloor> = 1 / 2
      \<or> roundHalfEven m = \<lfloor>m\<rfloor> + 1"
      by (auto simp add: roundHalfEven_def Let_def)
    with False f show ?thesis by (auto simp add: abs_le_iff)
  qed
qed

lemma roundHalfEven_int: "roundHalfEven (of_int k) = k"
  by (simp add: roundHalfEven_def)

lemma roundToDouble_exact:
  assumes "x \<noteq> 0" and "- 1022 \<le> ilog2 \<bar>x\<bar>" and "ilog2 \<bar>x\<bar> \<le> 1023"
    and "\<bar>x\<bar> / pow2 (ilog2 \<bar>x\<bar> - 52) = of_int n"
  shows "roundToDouble x = Finite x"
proof -
  define e where "e = ilog2 \<bar>x\<bar>"
  have q: "max e (- 1022) - 52 = e - 52"
    using assms(2) by (simp add: e_def)
  have "of_int n * pow2 (e - 52) = \<bar>x\<bar>"
    using assms(4) pow2_pos [of "e - 52"] by (simp add: e_def field_simps)
  then have r: "of_int (roundHalfEven (\<bar>x\<bar> / pow2 (e - 52))) * pow2 (e - 52) = \<bar>x\<bar>"
    using assms(4) by (simp add: e_def roundHalfEven_int)
  from assms(1) have "0 < \<bar>x\<bar>" by simp
  from ilog2_bounds [OF this] have "\<bar>x\<bar> < pow2 (e + 1)"
    by (simp add: e_def)
  moreover have "pow2 (e + 1) \<le> pow2 1024"
    using assms(3) by (simp add: pow2_le_iff e_def)
  ultimately have "\<not> pow2 1024 \<le> \<bar>x\<bar>" by simp
  with assms(1) show ?thesis
    unfolding roundToDouble_def Let_def e_def [symmetric] q r
    by (auto simp: abs_if)
qed

lemma roundToDouble_near:
  assumes "x \<noteq> 0" and "- 1022 \<le> ilog2 \<bar>x\<bar>" and "ilog2 \<bar>x\<bar> \<le> 1022"
  shows "\<exists>r. roundToDouble x = Finite r \<and> \<bar>r - x\<bar> \<le> pow2 (ilog2 \<bar>x\<bar> - 53)"
proof -
  define e where "e = ilog2 \<bar>x\<bar>"
  define m where "m = \<bar>x\<bar> / pow2 (e - 52)"
  define r where "r = of_int (roundHalfEven m) * pow2 (e - 52)"
  have q: "max e (- 1022) - 52 = e - 52"
    using assms(2) by (simp add: e_def)
  have mx: "m * pow2 (e - 52) = \<bar>x\<bar>"
    using pow2_pos [of "e - 52"] by (simp add: m_def)
  have "r - \<bar>x\<bar> = (of_int (roundHalfEven m) - m) * pow2 (e - 52)"
    by (simp add: r_def mx [symmetric] algebra_simps)
  then have "\<bar>r - \<bar>x\<bar>\<bar> = \<bar>of_int (roundHalfEven m) - m\<bar> * pow2 (e - 52)"
    using pow2_pos [of "e - 52"] by (simp add: abs_mult)
  also have "\<dots> \<le> (1 / 2) * pow2 (e - 52)"
    using roundHalfEven_err [of m] pow2_pos [of "e - 52"]
    by (intro mult_right_mono) simp_all
  also have "\<dots> = pow2 (e - 53)"
    using pow2_add [of "e - 53" 1] by (simp add: pow2_def)
  finally have err: "\<bar>r - \<bar>x\<bar>\<bar> \<le> pow2 (e - 53)" .
  from assms(1) have "0 < \<bar>x\<bar>" by simp
  from ilog2_bounds [OF this] have "\<bar>x\<bar> < pow2 (e + 1)"
    by (simp add: e_def)
  moreover have "pow2 (e - 53) < pow2 (e + 1)"
    by (simp add: pow2_less_iff)
  moreover have "pow2 (e + 1) + pow2 (e + 1) = pow2 (e + 2)"
    using pow2_add [of "e + 1" 1] by (simp add: pow2_def add.commute)
  moreover have "pow2 (e + 2) \<le> pow2 1024"
    using assms(3) by (simp add: pow2_le_iff e_def)
  ultimately have "r < pow2 1024"
    using err by (simp add: abs_le_iff)
  then have "roundToDouble x = Finite (if 0 < x then r else - r)"
    using assms(1) unfolding roundToDouble_def Let_def e_def [symmetric] q
    by (simp add: r_def m_def)
  moreover have "\<bar>(if 0 < x then r else - r) - x\<bar> = \<bar>r - \<bar>x\<bar>\<bar>"
    using assms(1) by (auto simp: abs_if)
  ultimately show ?thesis
    using err by (simp add: e_def)
qed

lemma roundToDouble_int:
  assumes "\<bar>k\<bar> \<le> 2 ^ 53"
  shows "roundToDouble (of_int k) = Finite (of_int k)"
proof (cases "k = 0")
  case True
  then show ?thesis by (simp add: roundToDouble_def)
next
  case False
  define a where "a = \<bar>k\<bar>"
  define e where "e = ilog2 (of_int a)"
  from False have a1: "1 \<le> a" by (simp add: a_def)
  then have pos: "(0::rat) < of_int a" by simp
  from ilog2_bounds [OF pos] have b: "pow2 e \<le> of_int a" "of_int a < pow2 (e + 1)"
    by (simp_all add: e_def)
  from a1 b(2) have "pow2 0 < pow2 (e + 1)"
    by (simp add: pow2_def) 
  then have e0: "0 \<le> e" by (simp add: pow2_less_iff)
  have a53: "(of_int a :: rat) \<le> pow2 53"
    using assms by (simp add: a_def pow2_def)
  with b(1) have "pow2 e \<le> pow2 53" by simp
  then have e53: "e \<le> 53" by (simp add: pow2_le_iff)
  have "\<exists>n. (of_int a :: rat) / pow2 (e - 52) = of_int n"
  proof (cases "e \<le> 52")
    case True
    then have "pow2 (e - 52) = 1 / 2 ^ nat (52 - e)"
      using pow2_neg_nat [of "nat (52 - e)"] by simp
    then have "(of_int a :: rat) / pow2 (e - 52) = of_int (a * 2 ^ nat (52 - e))"
      by simp
    then show ?thesis ..
  next
    case False
    with e53 have e: "e = 53" by simp
    with b(1) a53 have "(of_int a :: rat) = pow2 53" by simp
    then have "(of_int a :: rat) / pow2 (e - 52) = of_int (2 ^ 52)"
      by (simp add: e pow2_def)
    then show ?thesis ..
  qed
  then obtain n where n: "(of_int a :: rat) / pow2 (e - 52) = of_int n" ..
  have ak: "\<bar>of_int k :: rat\<bar> = of_int a" by (simp add: a_def)
  show ?thesis
  proof (rule roundToDouble_exact [where n = n])
    show "(of_int k :: rat) \<noteq> 0" using False by simp
    show "- 1022 \<le> ilog2 \<bar>of_int k :: rat\<bar>" using e0 by (simp add: ak e_def)
    show "ilog2 \<bar>of_int k :: rat\<bar> \<le> 1023" using e53 by (simp add: ak e_def)
    show "\<bar>of_int k :: rat\<bar> / pow2 (ilog2 \<bar>of_int k :: rat\<bar> - 52) = of_int n"
      using n by (simp add: ak e_def)
  qed
qed

lemma tenth_round:
  assumes "\<bar>s\<bar> \<le> 2 ^ 53"
  shows "\<exists>r. roundToDouble (of_int s / 10) = Finite r \<and> \<lfloor>r\<rfloor> = s div 10"
proof (cases "s mod 10 = 0")
  case True
  then have s: "s = 10 * (s div 10)" by presburger
  with assms have "\<bar>s div 10\<bar> \<le> 2 ^ 53" by simp
  then have "roundToDouble (of_int (s div 10)) = Finite (of_int (s div 10))"
    by (rule roundToDouble_int)
  moreover have "(of_int s :: rat) / 10 = of_int (s div 10)"
    by (subst s) simp
  ultimately show ?thesis by simp
next
  case False
  define x :: rat where "x = of_int s / 10"
  define K where "K = s div 10"
  define j where "j = s mod 10"
  from False have j: "1 \<le> j" "j \<le> 9"
    by (simp_all add: j_def)
  have "s = 10 * K + j" by (simp add: K_def j_def)
  then have xK: "x = of_int K + of_int j / 10"
    by (simp add: x_def)
  from False have x0: "x \<noteq> 0" by (auto simp: x_def)
  define e where "e = ilog2 \<bar>x\<bar>"
  from x0 have pos: "0 < \<bar>x\<bar>" by simp
  from ilog2_bounds [OF pos] have b: "pow2 e \<le> \<bar>x\<bar>" "\<bar>x\<bar> < pow2 (e + 1)"
    by (simp_all add: e_def)
  have "(of_int \<bar>s\<bar> :: rat) \<le> 2 ^ 53"
    using assms by (metis of_int_le_iff of_int_numeral of_int_power)
  then have "\<bar>x\<bar> < pow2 50"
    by (simp add: x_def pow2_def)
  with b(1) have "pow2 e < pow2 50" by simp
  then have e50: "e < 50" by (simp add: pow2_less_iff)
  from False have "s \<noteq> 0" by auto
  then have "1 \<le> \<bar>s\<bar>" by simp
  then have "(1::rat) \<le> of_int \<bar>s\<bar>" by (metis of_int_1 of_int_le_iff)
  then have "pow2 (- 4) \<le> \<bar>x\<bar>"
    by (simp add: x_def pow2_def)
  with b(2) have "pow2 (- 4) < pow2 (e + 1)" by simp
  then have e4: "- 4 \<le> e" using pow2_less_iff [of "- 4" "e + 1"] by simp
  from roundToDouble_near [OF x0] e4 e50
  obtain r where r: "roundToDouble x = Finite r" and err: "\<bar>r - x\<bar> \<le> pow2 (e - 53)"
    by (auto simp: e_def)
  have "pow2 (e - 53) \<le> pow2 (- 4)"
    using e50 by (simp add: pow2_le_iff)
  also have "\<dots> = 1 / 16" by (simp add: pow2_def)
  finally have "\<bar>r - x\<bar> \<le> 1 / 16" using err by simp
  then have "x - 1 / 16 \<le> r" "r \<le> x + 1 / 16"
    by linarith+
  moreover from j have "(1::rat) \<le> of_int j" "(of_int j :: rat) \<le> 9"
    by (metis of_int_1 of_int_le_iff, metis of_int_le_iff of_int_numeral)
  ultimately have "of_int K \<le> r" "r < of_int K + 1"
    unfolding xK by linarith+
  then have "\<lfloor>r\<rfloor> = K" by linarith
  with r show ?thesis by (simp add: x_def K_def)
qed

text \<open>Small integers are doubles: the form in which evaluation meets them.\<close>

lemma roundToDouble_numeral:
  "(numeral k :: int) \<le> 2 ^ 53 \<Longrightarrow> roundToDouble (numeral k) = Finite (numeral k)"
  "(numeral k :: int) \<le> 2 ^ 53 \<Longrightarrow> roundToDouble (- numeral k) = Finite (- numeral k)"
  "roundToDouble 0 = Finite 0"
  "roundToDouble 1 = Finite 1"
  using roundToDouble_int [of "numeral k"] roundToDouble_int [of "- numeral k"]
    roundToDouble_int [of 0] roundToDouble_int [of 1]
  by simp_all

text \<open>Rounding a given positive rational whose binade and rounded significand are
  known.\<close>

lemma roundHalfEven_below:
  assumes "of_int n \<le> m" and "m < of_int n + 1 / 2"
  shows "roundHalfEven m = n"
proof -
  from assms have "\<lfloor>m\<rfloor> = n" by linarith
  with assms show ?thesis by (simp add: roundHalfEven_def)
qed

lemma roundHalfEven_tie:
  assumes "m = of_int n + 1 / 2"
  shows "roundHalfEven m = (if even n then n else n + 1)"
proof -
  from assms have "\<lfloor>m\<rfloor> = n" by linarith
  with assms show ?thesis by (simp add: roundHalfEven_def)
qed

lemma roundToDouble_pos_eval:
  assumes "0 < x" and "pow2 e \<le> x" and "x < pow2 (e + 1)" and "- 1022 \<le> e"
    and "roundHalfEven (x / pow2 (e - 52)) = n"
    and "of_int n * pow2 (e - 52) < pow2 1024"
  shows "roundToDouble x = Finite (of_int n * pow2 (e - 52))"
proof -
  have e: "ilog2 x = e"
    using assms(1,2,3) by (rule ilog2_eqI)
  have q: "max e (- 1022) - 52 = e - 52"
    using assms(4) by simp
  from assms(1) have a: "\<bar>x\<bar> = x" by simp
  show ?thesis
    unfolding roundToDouble_def Let_def a e q assms(5)
    using assms(1,6) by simp
qed

text \<open>A rational of \<open>2 ^ 1024\<close> or more has no finite double.\<close>

lemma roundHalfEven_ge_floor: "\<lfloor>m\<rfloor> \<le> roundHalfEven m"
  by (simp add: roundHalfEven_def Let_def)

lemma roundToDouble_overflow:
  assumes "pow2 1024 \<le> x"
  shows "roundToDouble x = PosInfinity"
proof -
  define e where "e = ilog2 x"
  from assms pow2_pos [of 1024] have pos: "0 < x" by simp
  from ilog2_bounds [OF pos] have b: "pow2 e \<le> x" "x < pow2 (e + 1)"
    by (simp_all add: e_def)
  from assms b(2) have "pow2 1024 < pow2 (e + 1)" by simp
  then have e: "1024 \<le> e" using pow2_less_iff [of 1024 "e + 1"] by simp
  then have q: "max e (- 1022) - 52 = e - 52" by simp
  have "pow2 e = pow2 52 * pow2 (e - 52)"
    using pow2_add [of 52 "e - 52"] by simp
  with b(1) have "pow2 52 * pow2 (e - 52) \<le> x" by simp
  then have "pow2 52 \<le> x / pow2 (e - 52)"
    using pow2_pos [of "e - 52"] by (simp add: field_simps)
  moreover have "pow2 52 = of_int (2 ^ 52)"
    by (simp add: pow2_def)
  ultimately have "of_int (2 ^ 52) \<le> x / pow2 (e - 52)" by simp
  then have "2 ^ 52 \<le> \<lfloor>x / pow2 (e - 52)\<rfloor>"
    by (simp only: le_floor_iff)
  then have "2 ^ 52 \<le> roundHalfEven (x / pow2 (e - 52))"
    using roundHalfEven_ge_floor [of "x / pow2 (e - 52)"] by (rule order_trans)
  then have "(of_int (2 ^ 52) :: rat) \<le> of_int (roundHalfEven (x / pow2 (e - 52)))"
    by (simp only: of_int_le_iff)
  then have "of_int (2 ^ 52) * pow2 (e - 52)
      \<le> of_int (roundHalfEven (x / pow2 (e - 52))) * pow2 (e - 52)"
    using pow2_pos [of "e - 52"] by (intro mult_right_mono) simp_all
  moreover have "of_int (2 ^ 52) * pow2 (e - 52) = pow2 e"
    using pow2_add [of 52 "e - 52"] by (simp add: pow2_def)
  moreover have "pow2 1024 \<le> pow2 e"
    using e by (simp add: pow2_le_iff)
  ultimately have "pow2 1024 \<le> of_int (roundHalfEven (x / pow2 (e - 52))) * pow2 (e - 52)"
    by simp
  moreover from pos have "\<bar>x\<bar> = x" by simp
  ultimately show ?thesis
    using pos unfolding roundToDouble_def Let_def
    by (simp add: e_def [symmetric] q)
qed

text \<open>Beyond \<open>2 ^ 53\<close> only the even integers are doubles, and a quotient by 10 is
  rounded to a multiple of the spacing of its binade.\<close>

lemma round_9007199254740993: "roundToDouble 9007199254740993 = Finite 9007199254740992"
proof -
  have "roundHalfEven (9007199254740993 / pow2 (53 - 52)) = 4503599627370496"
    using roundHalfEven_tie [of "9007199254740993 / 2" 4503599627370496]
    by (simp add: pow2_def)
  from roundToDouble_pos_eval [of 9007199254740993 53, OF _ _ _ _ this]
  show ?thesis by (simp add: pow2_def)
qed

lemma round_9007199254740999: "roundToDouble 9007199254740999 = Finite 9007199254741000"
proof -
  have "roundHalfEven (9007199254740999 / pow2 (53 - 52)) = 4503599627370500"
    using roundHalfEven_tie [of "9007199254740999 / 2" 4503599627370499]
    by (simp add: pow2_def)
  from roundToDouble_pos_eval [of 9007199254740999 53, OF _ _ _ _ this]
  show ?thesis by (simp add: pow2_def)
qed

lemma round_9007199254740994: "roundToDouble 9007199254740994 = Finite 9007199254740994"
proof -
  have "roundHalfEven (9007199254740994 / pow2 (53 - 52)) = 4503599627370497"
    using roundHalfEven_int [of 4503599627370497]
    by (simp add: pow2_def)
  from roundToDouble_pos_eval [of 9007199254740994 53, OF _ _ _ _ this]
  show ?thesis by (simp add: pow2_def)
qed

lemma round_9007199254741000: "roundToDouble 9007199254741000 = Finite 9007199254741000"
proof -
  have "roundHalfEven (9007199254741000 / pow2 (53 - 52)) = 4503599627370500"
    using roundHalfEven_int [of 4503599627370500]
    by (simp add: pow2_def)
  from roundToDouble_pos_eval [of 9007199254741000 53, OF _ _ _ _ this]
  show ?thesis by (simp add: pow2_def)
qed

lemma round_tenth_9007199254740994:
  "roundToDouble (9007199254740994 / 10) = Finite (7205759403792795 / 8)"
proof -
  have "roundHalfEven (9007199254740994 / 10 / pow2 (49 - 52)) = 7205759403792795"
    by (rule roundHalfEven_below) (simp_all add: pow2_def)
  from roundToDouble_pos_eval [of "9007199254740994 / 10" 49, OF _ _ _ _ this]
  show ?thesis by (simp add: pow2_def)
qed

section \<open>The decade test in double arithmetic\<close>

lemma jsLe_Finite: "jsLe y (Finite b) \<longleftrightarrow> y = NegInfinity \<or> (\<exists>v. y = Finite v \<and> v \<le> b)"
  by (cases y) simp_all

lemma jsGe_Finite: "jsGe y (Finite a) \<longleftrightarrow> y = PosInfinity \<or> (\<exists>v. y = Finite v \<and> a \<le> v)"
  by (cases y) (simp_all add: jsGe_def)

text \<open>For a search year of magnitude at most \<open>2 ^ 53 - 10\<close> every step of \<open>isInDecade\<close>
  is exact or rounds inside the same unit interval, and the test is the test of the
  decade of the integers.\<close>

lemma isInDecade_bounded:
  assumes "\<bar>s\<bar> \<le> 2 ^ 53 - 10"
  shows "isInDecade y (Finite (of_int s)) \<longleftrightarrow>
    (\<exists>v. y = Finite v \<and> of_int (s div 10 * 10) \<le> v \<and> v \<le> of_int (s div 10 * 10 + 9))"
proof -
  define K where "K = s div 10"
  from assms have "\<bar>s\<bar> \<le> 2 ^ 53" by simp
  from tenth_round [OF this] obtain r
    where r: "roundToDouble (of_int s / 10) = Finite r" and fl: "\<lfloor>r\<rfloor> = K"
    by (auto simp: K_def)
  have "K * 10 \<le> s" "s - 9 \<le> K * 10"
    unfolding K_def by presburger+
  with assms have b: "\<bar>K * 10\<bar> \<le> 2 ^ 53" "\<bar>K * 10 + 9\<bar> \<le> 2 ^ 53"
    by simp_all
  have start: "jsTimes (mathFloor (jsDivide (Finite (of_int s)) 10)) 10 = Finite (of_int (K * 10))"
    using roundToDouble_int [OF b(1)]
    by (simp add: jsDivide_def r mathFloor_def fl jsTimes_def)
  have stop: "jsPlus (Finite (of_int (K * 10))) 9 = Finite (of_int (K * 10 + 9))"
    using roundToDouble_int [OF b(2)]
    by (simp add: jsPlus_def)
  show ?thesis
    unfolding isInDecade_def Let_def start stop K_def [symmetric]
    by (auto simp: jsLe_Finite jsGe_Finite)
qed

lemma isInDecade_Infinity:
  "isInDecade y PosInfinity \<longleftrightarrow> y = PosInfinity"
  "isInDecade y NegInfinity \<longleftrightarrow> y = NegInfinity"
  "\<not> isInDecade y NaN"
  by (cases y; simp add: isInDecade_def jsDivide_def mathFloor_def jsTimes_def jsPlus_def jsGe_def)+

section \<open>Evaluation\<close>

text \<open>The defining equations that evaluate the parser and \<open>parseInt\<close> on a concrete
  string.\<close>

lemmas js_eval = parseLogoFromFilename_def parseBody_def fallbackLogo_def yearOrDefault_def
  parseInt_def digitsValue_def isRadixDigit_def digitVal_def code_def isWhiteSpace_def
  trim_def spaceBeforeCapitals_def isUpperAZ_def toLowerCase_def toLowerChar_def
  startsWith_def rawFields_def stripExtension_def malformed_def Let_def
  char_of_def bit_Suc_0_iff falsy_def isNaN_def roundToDouble_numeral

section \<open>Decade matching\<close>

text \<open>The decade test beyond \<open>2 ^ 53\<close>: \<open>decadeStart + 9\<close> rounds up.\<close>

lemma decade_double_rounding:
  "isInDecade (Finite 9007199254741000) (Finite 9007199254740994)"
proof -
  have f: "\<lfloor>7205759403792795 / 8 :: rat\<rfloor> = 900719925474099"
    by (rule floor_unique) simp_all
  have "jsDivide (Finite 9007199254740994) 10 = Finite (7205759403792795 / 8)"
    by (simp only: jsDivide_def number.case round_tenth_9007199254740994)
  then have "mathFloor (jsDivide (Finite 9007199254740994) 10) = Finite 900719925474099"
    by (simp only: mathFloor_def number.case f) simp
  then have start: "jsTimes (mathFloor (jsDivide (Finite 9007199254740994) 10)) 10
      = Finite 9007199254740990"
    by (simp add: jsTimes_def roundToDouble_numeral)
  have stop: "jsPlus (Finite 9007199254740990) 9 = Finite 9007199254741000"
    by (simp add: jsPlus_def round_9007199254740999)
  show ?thesis
    unfolding isInDecade_def Let_def start stop by (simp add: jsGe_def)
qed

text \<open>
  Claim C4, as stated: for all integers \<open>y\<close> and \<open>s\<close>, \<open>isInDecade(y, s)\<close> holds if and
  only if \<open>floor(s/10)*10 \<le> y \<le> floor(s/10)*10 + 9\<close>. It fails beyond \<open>2 ^ 53\<close>, where
  the code's arithmetic rounds: 9007199254741000 and 9007199254740994 are both doubles,
  \<open>decadeStart\<close> is 9007199254740990 and \<open>decadeStart + 9\<close> rounds up to
  9007199254741000, so the code answers true for a year outside the decade.
\<close>

theorem decade_double_counterexample:
  "roundToDouble 9007199254741000 = Finite 9007199254741000
   \<and> roundToDouble 9007199254740994 = Finite 9007199254740994
   \<and> isInDecade (Finite 9007199254741000) (Finite 9007199254740994)
   \<and> \<not> ((9007199254740994 :: int) div 10 * 10 \<le> 9007199254741000
        \<and> (9007199254741000 :: int) \<le> 9007199254740994 div 10 * 10 + 9)"
  using decade_double_rounding
  by (simp add: round_9007199254741000 round_9007199254740994)

text \<open>
  Claim C4, amended. For all integers \<open>y\<close> (the record's year) and all search years \<open>s\<close>
  of magnitude at most \<open>2 ^ 53 - 10\<close>, \<open>isInDecade y s\<close> holds if and only if
  \<open>floor(s/10)*10 \<le> y \<le> floor(s/10)*10 + 9\<close>, where the floor of the quotient is
  integer division rounding down.
\<close>

theorem isInDecade_iff:
  assumes "\<bar>s\<bar> \<le> 2 ^ 53 - 10"
  shows "isInDecade (Finite (of_int y)) (Finite (of_int s))
    \<longleftrightarrow> (s div 10) * 10 \<le> y \<and> y \<le> (s div 10) * 10 + 9"
proof -
  have "(of_int (s div 10 * 10) \<le> (of_int y :: rat)) = (s div 10 * 10 \<le> y)"
    by (rule of_int_le_iff)
  moreover have "((of_int y :: rat) \<le> of_int (s div 10 * 10 + 9)) = (y \<le> s div 10 * 10 + 9)"
    by (rule of_int_le_iff)
  ultimately show ?thesis
    using isInDecade_bounded [OF assms, of "Finite (of_int y)"] by simp
qed

theorem isInDecade_iff_witness:
  "\<bar>1925 :: int\<bar> \<le> 2 ^ 53 - 10 \<and> isInDecade (Finite 1922) (Finite 1925)
   \<and> \<not> isInDecade (Finite 1930) (Finite 1925) \<and> isInDecade (Finite (- 3)) (Finite (- 7))"
  using isInDecade_iff [of 1925 1922] isInDecade_iff [of 1925 1930] isInDecade_iff [of "- 7" "- 3"]
  by simp

section \<open>The parser on well-formed and malformed identifiers\<close>

lemma split_not_Nil: "split c s \<noteq> []"
  by (induction s) (auto split: list.splits)

text \<open>\<open>filename.split('.')[0]\<close> is the text in front of the first \<open>.\<close>.\<close>

lemma hd_split: "hd (split c s) = takeWhile (\<lambda>x. x \<noteq> c) s"
  by (induction s) (auto split: list.splits simp: split_not_Nil)

lemma length5E:
  assumes "length xs = 5"
  obtains a b c d e where "xs = [a, b, c, d, e]"
  using assms by (auto simp: length_Suc_conv eval_nat_numeral)

text \<open>A malformed identifier makes the \<open>try\<close> block throw.\<close>

lemma parseBody_malformed:
  assumes "malformed f"
  shows "\<exists>e. parseBody f i = Inl e"
proof (cases "f = []")
  case True
  then show ?thesis by (simp add: parseBody_def)
next
  case nonempty: False
  show ?thesis
  proof (cases "length (rawFields f) = 5")
    case False
    with nonempty show ?thesis
      by (simp add: parseBody_def rawFields_def stripExtension_def hd_split Let_def)
  next
    case True
    then obtain a b c d e where parts: "rawFields f = [a, b, c, d, e]"
      by (rule length5E)
    with assms nonempty have "a = [] \<or> b = [] \<or> c = [] \<or> d = [] \<or> e = []"
      by (auto simp: malformed_def)
    with nonempty parts show ?thesis
      by (auto simp add: parseBody_def rawFields_def stripExtension_def hd_split Let_def)
  qed
qed

text \<open>Any other identifier reaches the \<open>return\<close> of the \<open>try\<close> block, with the
  record built from its five rawFields.\<close>

lemma parseBody_wellformed:
  assumes "\<not> malformed f"
  shows "parseBody f i = Inr \<lparr>logo_id = i,
            logo_name = trim (spaceBeforeCapitals (rawFields f ! 0)),
            logo_year = yearOrDefault (rawFields f ! 4),
            logo_color = toLowerCase (rawFields f ! 1),
            logo_type = toLowerCase (rawFields f ! 3),
            logo_imageUrl = ''/logos/'' @ f,
            logo_source = (if startsWith (rawFields f ! 2) ''www''
                           then ''https://'' @ rawFields f ! 2 else rawFields f ! 2)\<rparr>"
proof -
  from assms have nonempty: "f \<noteq> []" and len: "length (rawFields f) = 5"
    and full: "[] \<notin> set (rawFields f)"
    by (auto simp: malformed_def)
  from len obtain a b c d e where parts: "rawFields f = [a, b, c, d, e]"
    by (rule length5E)
  with full have "a \<noteq> []" "b \<noteq> []" "c \<noteq> []" "d \<noteq> []" "e \<noteq> []"
    by auto
  with nonempty parts show ?thesis
    by (simp add: parseBody_def rawFields_def stripExtension_def hd_split Let_def)
qed

lemma malformed_default: "malformed ''default.png''"
  by (simp add: malformed_def rawFields_def stripExtension_def)

text \<open>
  Claim C2. For every input string and position, the parser returns the fallback
  record (name "Invalid Logo", year 2000, colour "black", type "serif", image
  "/logos/default.png", source "https://example.com") with the position as its id if and
  only if the input is empty, the extension-stripped string does not split on the bar
  into exactly five parts, or one of the parts is empty. In particular the empty string
  at position 5 gives the fallback record with id 5.
\<close>

theorem fallback_iff_malformed:
  "(parseLogoFromFilename f i
      = Inr \<lparr>logo_id = i, logo_name = ''Invalid Logo'', logo_year = Finite 2000,
          logo_color = ''black'', logo_type = ''serif'',
          logo_imageUrl = ''/logos/default.png'', logo_source = ''https://example.com''\<rparr>
    \<longleftrightarrow> malformed f)
   \<and> parseLogoFromFilename [] 5
      = Inr \<lparr>logo_id = 5, logo_name = ''Invalid Logo'', logo_year = Finite 2000,
          logo_color = ''black'', logo_type = ''serif'',
          logo_imageUrl = ''/logos/default.png'', logo_source = ''https://example.com''\<rparr>"
proof
  show "parseLogoFromFilename f i
      = Inr \<lparr>logo_id = i, logo_name = ''Invalid Logo'', logo_year = Finite 2000,
          logo_color = ''black'', logo_type = ''serif'',
          logo_imageUrl = ''/logos/default.png'', logo_source = ''https://example.com''\<rparr>
    \<longleftrightarrow> malformed f"
  proof
    assume fb: "parseLogoFromFilename f i
      = Inr \<lparr>logo_id = i, logo_name = ''Invalid Logo'', logo_year = Finite 2000,
          logo_color = ''black'', logo_type = ''serif'',
          logo_imageUrl = ''/logos/default.png'', logo_source = ''https://example.com''\<rparr>"
    show "malformed f"
    proof (rule ccontr)
      assume ok: "\<not> malformed f"
      from parseBody_wellformed [OF ok, of i] fb
      have "''/logos/'' @ f = ''/logos/default.png''"
        by (simp add: parseLogoFromFilename_def)
      then have "f = ''default.png''" by simp
      with ok malformed_default show False by simp
    qed
  next
    assume "malformed f"
    then obtain e where "parseBody f i = Inl e"
      using parseBody_malformed by blast
    then show "parseLogoFromFilename f i
      = Inr \<lparr>logo_id = i, logo_name = ''Invalid Logo'', logo_year = Finite 2000,
          logo_color = ''black'', logo_type = ''serif'',
          logo_imageUrl = ''/logos/default.png'', logo_source = ''https://example.com''\<rparr>"
      by (simp add: parseLogoFromFilename_def fallbackLogo_def)
  qed
next
  show "parseLogoFromFilename [] 5
      = Inr \<lparr>logo_id = 5, logo_name = ''Invalid Logo'', logo_year = Finite 2000,
          logo_color = ''black'', logo_type = ''serif'',
          logo_imageUrl = ''/logos/default.png'', logo_source = ''https://example.com''\<rparr>"
    by (simp add: parseLogoFromFilename_def parseBody_def fallbackLogo_def)
qed

theorem fallback_iff_malformed_witness:
  "malformed ''A|b|c|d|e|f.png''
   \<and> parseLogoFromFilename ''A|b|c|d|e|f.png'' 3
      = Inr \<lparr>logo_id = 3, logo_name = ''Invalid Logo'', logo_year = Finite 2000,
          logo_color = ''black'', logo_type = ''serif'',
          logo_imageUrl = ''/logos/default.png'', logo_source = ''https://example.com''\<rparr>
   \<and> \<not> malformed ''A|b|c|d|1999.png''
   \<and> parseLogoFromFilename ''A|b|c|d|1999.png'' 3
      \<noteq> Inr \<lparr>logo_id = 3, logo_name = ''Invalid Logo'', logo_year = Finite 2000,
          logo_color = ''black'', logo_type = ''serif'',
          logo_imageUrl = ''/logos/default.png'', logo_source = ''https://example.com''\<rparr>"
  using fallback_iff_malformed [of "''A|b|c|d|e|f.png''" 3]
    fallback_iff_malformed [of "''A|b|c|d|1999.png''" 3]
  by (simp add: malformed_def rawFields_def stripExtension_def)

text \<open>The two variants of the parser differ on an identifier with a sixth part: the
  parser with the length check falls back, the variant of \<open>page.tsx\<close> ignores the
  extra part.\<close>

lemma page_variant_six_parts:
  "parseLogoFromFilename ''A|b|c|d|1999|x.png'' 3 = Inr (fallbackLogo 3)
   \<and> parseLogoFromFilename_page ''A|b|c|d|1999|x.png'' 3
     = \<lparr>logo_id = 3, logo_name = ''A'', logo_year = Finite 1999, logo_color = ''b'',
        logo_type = ''d'', logo_imageUrl = ''/logos/A|b|c|d|1999|x.png'', logo_source = ''c''\<rparr>"
  by (simp add: js_eval parseLogoFromFilename_page_def partOrUndefined_def)

text \<open>
  Claim C8. For every input string (the empty string, strings with fewer or more than
  five bar-separated parts and strings with empty parts included) the parser raises
  nothing: it returns a record, which carries the position as its id and is the fallback
  record when the input is malformed.
\<close>

theorem parse_total:
  "\<exists>r. parseLogoFromFilename f i = Inr r \<and> logo_id r = i
     \<and> (malformed f \<longrightarrow> r = fallbackLogo i)"
proof (cases "malformed f")
  case True
  then obtain e where "parseBody f i = Inl e"
    using parseBody_malformed by blast
  then show ?thesis
    by (simp add: parseLogoFromFilename_def fallbackLogo_def)
next
  case False
  then show ?thesis
    by (simp add: parseLogoFromFilename_def parseBody_wellformed)
qed

theorem parse_total_witness:
  "malformed ''A||c|d|1999.png''
   \<and> parseLogoFromFilename ''A||c|d|1999.png'' 7 = Inr (fallbackLogo 7)"
proof -
  have m: "malformed ''A||c|d|1999.png''"
    by (simp add: malformed_def rawFields_def stripExtension_def)
  with parse_total [of "''A||c|d|1999.png''" 7] show ?thesis
    by auto
qed

section \<open>The catalogue's own first entry\<close>

text \<open>
  Claim C1. Scenario A: the raw identifier
  "BarcelonaArchives|Blue|www.arxiu.barcelona|Serif|1922.png" at position 1 is said to
  parse to the record named "Barcelona Archives" of 1922. The source field holds a dot,
  so \<open>filename.split('.')[0]\<close> keeps only "BarcelonaArchives|Blue|www", which has
  three parts: the \<open>try\<close> block throws and the parser returns the fallback record.
\<close>

theorem scenario_A_falls_back:
  "hd (split CHR ''.'' ''BarcelonaArchives|Blue|www.arxiu.barcelona|Serif|1922.png'')
     = ''BarcelonaArchives|Blue|www''
   \<and> split CHR ''|'' ''BarcelonaArchives|Blue|www'' = [''BarcelonaArchives'', ''Blue'', ''www'']
   \<and> parseLogoFromFilename ''BarcelonaArchives|Blue|www.arxiu.barcelona|Serif|1922.png'' 1
     = Inr \<lparr>logo_id = 1, logo_name = ''Invalid Logo'', logo_year = Finite 2000,
            logo_color = ''black'', logo_type = ''serif'',
            logo_imageUrl = ''/logos/default.png'', logo_source = ''https://example.com''\<rparr>
   \<and> parseLogoFromFilename ''BarcelonaArchives|Blue|www.arxiu.barcelona|Serif|1922.png'' 1
     \<noteq> Inr \<lparr>logo_id = 1, logo_name = ''Barcelona Archives'', logo_year = Finite 1922,
            logo_color = ''blue'', logo_type = ''serif'',
            logo_imageUrl = ''/logos/BarcelonaArchives|Blue|www.arxiu.barcelona|Serif|1922.png'',
            logo_source = ''https://www.arxiu.barcelona''\<rparr>"
  by (simp add: parseLogoFromFilename_def parseBody_def fallbackLogo_def)

section \<open>The year of a parsed record\<close>

text \<open>
  Claim C6, as stated: on the success path the year is the integer parsed from field 5,
  and is 2000 exactly when field 5 fails to parse. It fails for a year field that
  parses to zero: "A|b|c|d|0.png" has the fields A, b, c, d and 0, \<open>parseInt("0")\<close> is
  \<open>0\<close>, and \<open>parseInt(year) || 2000\<close> is \<open>2000\<close>, since \<open>0\<close> is falsy.
\<close>

theorem year_zero_counterexample:
  "rawFields ''A|b|c|d|0.png'' = [''A'', ''b'', ''c'', ''d'', ''0'']
   \<and> parseInt ''0'' = Finite 0
   \<and> parseLogoFromFilename ''A|b|c|d|0.png'' 1
     = Inr \<lparr>logo_id = 1, logo_name = ''A'', logo_year = Finite 2000, logo_color = ''b'',
            logo_type = ''d'', logo_imageUrl = ''/logos/A|b|c|d|0.png'', logo_source = ''c''\<rparr>"
  by (simp add: js_eval)

text \<open>
  Claim C6, amended. For every input on the success path the parser returns a record
  that is not the fallback record, whatever field 5 holds. Its year is the number
  \<open>parseInt\<close> reads from field 5 when that number is not zero, and 2000 when field 5
  does not parse or parses to zero.
\<close>

theorem year_default:
  assumes "\<not> malformed f"
  shows "\<exists>r. parseLogoFromFilename f i = Inr r \<and> r \<noteq> fallbackLogo i
    \<and> (parseInt (rawFields f ! 4) = NaN \<longrightarrow> logo_year r = Finite 2000)
    \<and> (parseInt (rawFields f ! 4) = Finite 0 \<longrightarrow> logo_year r = Finite 2000)
    \<and> (\<forall>n. parseInt (rawFields f ! 4) = n \<and> n \<noteq> NaN \<and> n \<noteq> Finite 0
          \<longrightarrow> logo_year r = n)"
proof -
  obtain r where r: "parseBody f i = Inr r"
    and y: "logo_year r = yearOrDefault (rawFields f ! 4)"
    and u: "logo_imageUrl r = ''/logos/'' @ f"
    using parseBody_wellformed [OF assms, of i] by simp
  have "f \<noteq> ''default.png''"
    using assms malformed_default by blast
  with u have "logo_imageUrl r \<noteq> logo_imageUrl (fallbackLogo i)"
    by (simp add: fallbackLogo_def)
  then have nf: "r \<noteq> fallbackLogo i"
    by blast
  from r have p: "parseLogoFromFilename f i = Inr r"
    by (simp add: parseLogoFromFilename_def)
  have y1: "parseInt (rawFields f ! 4) = NaN \<longrightarrow> logo_year r = Finite 2000"
    by (simp add: y yearOrDefault_def falsy_def)
  have y2: "parseInt (rawFields f ! 4) = Finite 0 \<longrightarrow> logo_year r = Finite 2000"
    by (simp add: y yearOrDefault_def falsy_def)
  have y3: "\<forall>n. parseInt (rawFields f ! 4) = n \<and> n \<noteq> NaN \<and> n \<noteq> Finite 0
          \<longrightarrow> logo_year r = n"
    by (simp add: y yearOrDefault_def falsy_def)
  show ?thesis
    by (intro exI [of _ r] conjI) (rule p nf y1 y2 y3)+
qed

theorem year_default_witness:
  "\<not> malformed ''A|b|c|d|year.png''
   \<and> parseInt (rawFields ''A|b|c|d|year.png'' ! 4) = NaN
   \<and> (\<exists>r. parseLogoFromFilename ''A|b|c|d|year.png'' 2 = Inr r \<and> logo_year r = Finite 2000
          \<and> r \<noteq> fallbackLogo 2)
   \<and> \<not> malformed ''A|b|c|d|1983x.png''
   \<and> parseInt (rawFields ''A|b|c|d|1983x.png'' ! 4) = Finite 1983
   \<and> (\<exists>r. parseLogoFromFilename ''A|b|c|d|1983x.png'' 2 = Inr r \<and> logo_year r = Finite 1983)"
proof -
  have m: "\<not> malformed ''A|b|c|d|year.png''"
    by (simp add: js_eval)
  have n: "parseInt (rawFields ''A|b|c|d|year.png'' ! 4) = NaN"
    by (simp add: js_eval)
  have m': "\<not> malformed ''A|b|c|d|1983x.png''"
    by (simp add: js_eval)
  have n': "parseInt (rawFields ''A|b|c|d|1983x.png'' ! 4) = Finite 1983"
    by (simp add: js_eval)
  from year_default [OF m, of 2] n
  have a: "\<exists>r. parseLogoFromFilename ''A|b|c|d|year.png'' 2 = Inr r \<and> logo_year r = Finite 2000
          \<and> r \<noteq> fallbackLogo 2"
    by auto
  from year_default [OF m', of 2] n'
  have b: "\<exists>r. parseLogoFromFilename ''A|b|c|d|1983x.png'' 2 = Inr r \<and> logo_year r = Finite 1983"
    by auto
  from m n a m' n' b show ?thesis
    by (intro conjI)
qed

section \<open>The matching predicate\<close>

text \<open>\<open>startsWith\<close> and \<open>includes\<close> are the prefix and the contiguous-sublist relations
  of the list library.\<close>

lemma startsWith_prefix: "startsWith s p \<longleftrightarrow> prefix p s"
  unfolding startsWith_def
  by (metis take_is_prefix prefix_def append_eq_conv_conj)

lemma includesStr_sublist: "includesStr s t \<longleftrightarrow> sublist t s"
  by (induction s) (simp_all add: sublist_Cons_right startsWith_prefix)

lemma includesStr_Nil: "includesStr s []"
  by (simp add: includesStr_sublist)

text \<open>\<open>toLowerCase\<close> identifies exactly the characters that are the same letter.\<close>

lemma code_less_256: "code c < 256"
  using of_char_mod_256 [of c, where ?'a = nat] unfolding code_def
  by (metis mod_less_divisor zero_less_numeral)

lemma code_eq_iff: "code c = code d \<longleftrightarrow> c = d"
  by (simp add: code_def)

lemma code_toLowerChar:
  "code (toLowerChar c) = (if isCapital c then code c + 32 else code c)"
proof (cases "isCapital c")
  case True
  then have "code c + 32 < 256"
    by (auto simp: isCapital_def)
  then have "code (char_of (code c + 32)) = code c + 32"
    by (simp add: code_def)
  with True show ?thesis
    by (simp add: toLowerChar_def isCapital_def)
next
  case False
  then show ?thesis
    by (auto simp: toLowerChar_def isCapital_def)
qed

lemma toLowerChar_eq_iff: "toLowerChar c = toLowerChar d \<longleftrightarrow> sameLetter c d"
proof -
  have "toLowerChar c = toLowerChar d \<longleftrightarrow> code (toLowerChar c) = code (toLowerChar d)"
    by (simp add: code_eq_iff)
  also have "\<dots> \<longleftrightarrow> sameLetter c d"
    unfolding code_toLowerChar sameLetter_def code_eq_iff [of c d, symmetric]
    by (auto simp: isCapital_def)
  finally show ?thesis .
qed

lemma toLowerCase_eq_iff: "toLowerCase xs = toLowerCase ys \<longleftrightarrow> list_all2 sameLetter xs ys"
proof -
  have "list_all2 sameLetter xs ys \<longleftrightarrow> list_all2 (=) (map toLowerChar xs) (map toLowerChar ys)"
    by (simp add: list_all2_map1 list_all2_map2 toLowerChar_eq_iff)
  then show ?thesis
    by (simp add: toLowerCase_def list_all2_eq)
qed

lemma includes_lower_run:
  "includesStr (toLowerCase s) (toLowerCase t)
    \<longleftrightarrow> (\<exists>ps mid ss. s = ps @ mid @ ss \<and> list_all2 sameLetter mid t)"
proof
  assume "includesStr (toLowerCase s) (toLowerCase t)"
  then obtain ps' ss' where "toLowerCase s = ps' @ toLowerCase t @ ss'"
    by (auto simp: includesStr_sublist sublist_def)
  then have "map toLowerChar s = ps' @ (map toLowerChar t @ ss')"
    by (simp add: toLowerCase_def)
  then obtain ps r where s: "s = ps @ r" and "map toLowerChar t @ ss' = map toLowerChar r"
    unfolding map_eq_append_conv by blast
  then have "map toLowerChar r = map toLowerChar t @ ss'"
    by simp
  then obtain mid ss where r: "r = mid @ ss" and m: "map toLowerChar t = map toLowerChar mid"
    unfolding map_eq_append_conv by blast
  from m have "toLowerCase mid = toLowerCase t"
    by (simp add: toLowerCase_def)
  then have "list_all2 sameLetter mid t"
    by (simp add: toLowerCase_eq_iff)
  with s r show "\<exists>ps mid ss. s = ps @ mid @ ss \<and> list_all2 sameLetter mid t"
    by blast
next
  assume "\<exists>ps mid ss. s = ps @ mid @ ss \<and> list_all2 sameLetter mid t"
  then obtain ps mid ss where s: "s = ps @ mid @ ss" and "list_all2 sameLetter mid t"
    by blast
  then have "toLowerCase mid = toLowerCase t"
    by (simp add: toLowerCase_eq_iff)
  with s have "toLowerCase s = toLowerCase ps @ toLowerCase t @ toLowerCase ss"
    by (simp add: toLowerCase_def)
  then show "includesStr (toLowerCase s) (toLowerCase t)"
    by (auto simp: includesStr_sublist sublist_def)
qed

lemma includes_lower_iff:
  "includesStr (toLowerCase s) (toLowerCase t) \<longleftrightarrow> containsIgnoringCase s t"
proof (induction s)
  case Nil
  then show ?case by (simp add: toLowerCase_def)
next
  case (Cons x xs)
  have "startsWith (toLowerCase (x # xs)) (toLowerCase t)
      \<longleftrightarrow> toLowerCase (take (length t) (x # xs)) = toLowerCase t"
    by (simp only: startsWith_def toLowerCase_def length_map take_map)
  also have "\<dots> \<longleftrightarrow> list_all2 sameLetter (take (length t) (x # xs)) t"
    by (rule toLowerCase_eq_iff)
  finally have "startsWith (toLowerCase (x # xs)) (toLowerCase t)
      \<longleftrightarrow> list_all2 sameLetter (take (length t) (x # xs)) t" .
  moreover have "toLowerCase (x # xs) = toLowerChar x # toLowerCase xs"
    by (simp add: toLowerCase_def)
  ultimately show ?case
    using Cons.IH by simp
qed

text \<open>Case-insensitive containment is a run of the string that matches the term letter
  by letter.\<close>

lemma containsIgnoringCase_run:
  "containsIgnoringCase s t
    \<longleftrightarrow> (\<exists>ps mid ss. s = ps @ mid @ ss \<and> list_all2 sameLetter mid t)"
  using includes_lower_iff [of s t] includes_lower_run [of s t] by simp

text \<open>The year branch, for a search term that \<open>parseInt\<close> reads as an integer of
  magnitude at most \<open>2 ^ 53 - 10\<close>.\<close>

lemma yearMatch_bounded:
  assumes "parseInt t = Finite (of_int n)" and "\<bar>n\<bar> \<le> 2 ^ 53 - 10"
  shows "yearMatch t y \<longleftrightarrow>
    (\<exists>v. y = Finite v \<and> of_int (n div 10 * 10) \<le> v \<and> v \<le> of_int (n div 10 * 10 + 9))"
  using isInDecade_bounded [OF assms(2), of y]
  by (simp add: yearMatch_def assms(1) isNaN_def)

lemma matchesLogo_iff:
  "matchesLogo t fl r \<longleftrightarrow>
     (containsIgnoringCase (logo_name r) t \<or> yearMatch t (logo_year r))
     \<and> (filters_color fl = [] \<or> logo_color r = filters_color fl)
     \<and> (filters_type fl = [] \<or> logo_type r = filters_type fl)"
  by (simp add: matchesLogo_def Let_def includes_lower_iff)

text \<open>
  Claim C3, as stated: the filter keeps a record if and only if its name contains the
  search term case-insensitively or the search term parses as an integer and the year
  lies in that integer's decade, and the colour and type filters agree. It fails where
  the decade test of the code rounds: the identifier "A|b|c|d|9007199254741000" parses
  to a record of the year 9007199254741000, and the search term "9007199254740994"
  keeps it, although the name "A" does not contain the term and the year is outside the
  decade 9007199254740990 to 9007199254740999.
\<close>

theorem matching_double_counterexample:
  "parseLogoFromFilename ''A|b|c|d|9007199254741000'' 1
     = Inr \<lparr>logo_id = 1, logo_name = ''A'', logo_year = Finite 9007199254741000,
          logo_color = ''b'', logo_type = ''d'',
          logo_imageUrl = ''/logos/A|b|c|d|9007199254741000'', logo_source = ''c''\<rparr>
   \<and> parseInt ''9007199254740994'' = Finite 9007199254740994
   \<and> filteredLogos ''9007199254740994'' noFilters
        [\<lparr>logo_id = 1, logo_name = ''A'', logo_year = Finite 9007199254741000,
          logo_color = ''b'', logo_type = ''d'',
          logo_imageUrl = ''/logos/A|b|c|d|9007199254741000'', logo_source = ''c''\<rparr>]
     = [\<lparr>logo_id = 1, logo_name = ''A'', logo_year = Finite 9007199254741000,
          logo_color = ''b'', logo_type = ''d'',
          logo_imageUrl = ''/logos/A|b|c|d|9007199254741000'', logo_source = ''c''\<rparr>]
   \<and> \<not> containsIgnoringCase ''A'' ''9007199254740994''
   \<and> \<not> ((9007199254740994 :: int) div 10 * 10 \<le> 9007199254741000
        \<and> (9007199254741000 :: int) \<le> 9007199254740994 div 10 * 10 + 9)"
proof -
  have p: "parseLogoFromFilename ''A|b|c|d|9007199254741000'' 1
     = Inr \<lparr>logo_id = 1, logo_name = ''A'', logo_year = Finite 9007199254741000,
          logo_color = ''b'', logo_type = ''d'',
          logo_imageUrl = ''/logos/A|b|c|d|9007199254741000'', logo_source = ''c''\<rparr>"
    by (simp add: js_eval round_9007199254741000)
  have n: "parseInt ''9007199254740994'' = Finite 9007199254740994"
    by (simp add: js_eval round_9007199254740994)
  have d: "isInDecade (Finite 9007199254741000) (Finite 9007199254740994)"
    using decade_double_rounding by simp
  have c: "\<not> containsIgnoringCase ''A'' ''9007199254740994''"
    unfolding includes_lower_iff [symmetric] by (simp add: js_eval)
  have "matchesLogo ''9007199254740994'' noFilters
        \<lparr>logo_id = 1, logo_name = ''A'', logo_year = Finite 9007199254741000,
          logo_color = ''b'', logo_type = ''d'',
          logo_imageUrl = ''/logos/A|b|c|d|9007199254741000'', logo_source = ''c''\<rparr>"
    by (simp add: matchesLogo_iff yearMatch_def n isNaN_def d noFilters_def)
  then have f: "filteredLogos ''9007199254740994'' noFilters
        [\<lparr>logo_id = 1, logo_name = ''A'', logo_year = Finite 9007199254741000,
          logo_color = ''b'', logo_type = ''d'',
          logo_imageUrl = ''/logos/A|b|c|d|9007199254741000'', logo_source = ''c''\<rparr>]
     = [\<lparr>logo_id = 1, logo_name = ''A'', logo_year = Finite 9007199254741000,
          logo_color = ''b'', logo_type = ''d'',
          logo_imageUrl = ''/logos/A|b|c|d|9007199254741000'', logo_source = ''c''\<rparr>]"
    by (simp add: filteredLogos_def)
  from p n f c show ?thesis by simp
qed

text \<open>
  Claim C3, amended. For every record and query, the filter keeps the record if and
  only if all three hold: (1) the record's name contains the search term as a
  substring, letters compared without regard to case (some run of the name matches the
  term letter by letter), or the year branch holds;
  (2) no colour filter is set or the record's colour equals it; (3) no type filter is
  set or the record's type equals it. A search term that \<open>parseInt\<close> does not read
  makes the year branch false; otherwise the year branch is the decade test of the code
  against the number \<open>parseInt\<close> gives, and for an integer of magnitude at most
  \<open>2 ^ 53 - 10\<close> it holds exactly when the record's year lies in that integer's decade;
  and the empty search term satisfies the substring branch for every name.
\<close>

theorem matching_predicate:
  "filteredLogos t fl rs =
     filter (\<lambda>r.
       (containsIgnoringCase (logo_name r) t \<or> yearMatch t (logo_year r))
       \<and> (filters_color fl = [] \<or> logo_color r = filters_color fl)
       \<and> (filters_type fl = [] \<or> logo_type r = filters_type fl)) rs
   \<and> (parseInt t = NaN \<longrightarrow> \<not> yearMatch t y)
   \<and> (parseInt t \<noteq> NaN \<longrightarrow> yearMatch t y = isInDecade y (parseInt t))
   \<and> (parseInt t = Finite (of_int n) \<and> \<bar>n\<bar> \<le> 2 ^ 53 - 10 \<longrightarrow>
        (yearMatch t y \<longleftrightarrow>
          (\<exists>v. y = Finite v \<and> of_int (n div 10 * 10) \<le> v \<and> v \<le> of_int (n div 10 * 10 + 9))))
   \<and> (containsIgnoringCase name t
        \<longleftrightarrow> (\<exists>ps mid ss. name = ps @ mid @ ss \<and> list_all2 sameLetter mid t))
   \<and> containsIgnoringCase name []"
proof (intro conjI impI)
  show "containsIgnoringCase name t
      \<longleftrightarrow> (\<exists>ps mid ss. name = ps @ mid @ ss \<and> list_all2 sameLetter mid t)"
    by (rule containsIgnoringCase_run)
  show "yearMatch t y = isInDecade y (parseInt t)" if "parseInt t \<noteq> NaN"
    using that by (simp add: yearMatch_def isNaN_def)
  show "filteredLogos t fl rs =
     filter (\<lambda>r.
       (containsIgnoringCase (logo_name r) t \<or> yearMatch t (logo_year r))
       \<and> (filters_color fl = [] \<or> logo_color r = filters_color fl)
       \<and> (filters_type fl = [] \<or> logo_type r = filters_type fl)) rs"
    unfolding filteredLogos_def by (rule filter_cong [OF refl]) (rule matchesLogo_iff)
  show "\<not> yearMatch t y" if "parseInt t = NaN"
    using that by (simp add: yearMatch_def isNaN_def)
  show "yearMatch t y \<longleftrightarrow>
      (\<exists>v. y = Finite v \<and> of_int (n div 10 * 10) \<le> v \<and> v \<le> of_int (n div 10 * 10 + 9))"
    if "parseInt t = Finite (of_int n) \<and> \<bar>n\<bar> \<le> 2 ^ 53 - 10"
    using that by (intro yearMatch_bounded) simp_all
  show "containsIgnoringCase name []"
    by (cases name) simp_all
qed

section \<open>Order preservation and the unconstrained query\<close>

text \<open>
  Claim C5. For every record sequence and query, the filtered sequence is a
  subsequence of the records in their original order, and the unconstrained query
  (empty search term, no colour filter, no type filter) returns the records unchanged.
\<close>

theorem filter_order_identity:
  "subseq (filteredLogos t fl rs) rs \<and> filteredLogos [] noFilters rs = rs"
proof
  show "subseq (filteredLogos t fl rs) rs"
    by (simp add: filteredLogos_def)
  have "matchesLogo [] noFilters r" for r
    by (simp add: matchesLogo_def noFilters_def toLowerCase_def includesStr_Nil)
  then show "filteredLogos [] noFilters rs = rs"
    by (simp add: filteredLogos_def)
qed

section \<open>The type vocabulary\<close>

lemma parseBody_Inr_wellformed: "parseBody f i = Inr r \<Longrightarrow> \<not> malformed f"
  using parseBody_malformed [of f i] by auto

lemma lower_SansSerif: "toLowerCase ''SansSerif'' = ''sansserif''"
  by (simp add: js_eval)

text \<open>
  Claim C7. For every raw identifier that parses on the success path and whose type
  field is the literal "SansSerif", the record's type is "sansserif" (lower-cased, no
  hyphen), so a query whose type filter is "sans-serif" never matches the record,
  whatever its search term and colour filter; and "sansserif" is not a value the
  typography selector sets.
\<close>

theorem sansserif_never_matches:
  assumes "parseBody f i = Inr r"
    and "split CHR ''|'' (hd (split CHR ''.'' f)) ! 3 = ''SansSerif''"
  shows "parseLogoFromFilename f i = Inr r \<and> logo_type r = ''sansserif''
    \<and> \<not> matchesLogo t (fl\<lparr>filters_type := ''sans-serif''\<rparr>) r
    \<and> ''sansserif'' \<notin> set typographyButtons"
proof (intro conjI)
  from assms(1) show "parseLogoFromFilename f i = Inr r"
    by (simp add: parseLogoFromFilename_def)
  from assms(1) have ok: "\<not> malformed f"
    by (rule parseBody_Inr_wellformed)
  from assms(2) have "rawFields f ! 3 = ''SansSerif''"
    by (simp add: rawFields_def stripExtension_def hd_split)
  with parseBody_wellformed [OF ok, of i] assms(1)
  show ty: "logo_type r = ''sansserif''"
    using lower_SansSerif by auto
  then show "\<not> matchesLogo t (fl\<lparr>filters_type := ''sans-serif''\<rparr>) r"
    by (simp add: matchesLogo_def Let_def)
  show "''sansserif'' \<notin> set typographyButtons"
    by (simp add: typographyButtons_def)
qed

section \<open>Toggle-single-select\<close>

text \<open>
  Claim C9. For every filter state: clicking the value that is already the selected
  colour (or type) clears that filter; clicking a value different from the selected
  one leaves exactly the clicked value selected; a click on one selector leaves the
  other filter alone; and clicking the same value twice in a row from the unset state
  returns to the unset state.
\<close>

theorem toggle_single_select:
  "(filters_color fl = v \<longrightarrow> filters_color (clickColor fl v) = [])
   \<and> (filters_color fl \<noteq> w \<longrightarrow> filters_color (clickColor fl w) = w)
   \<and> filters_type (clickColor fl w) = filters_type fl
   \<and> (filters_type fl = v \<longrightarrow> filters_type (clickType fl v) = [])
   \<and> (filters_type fl \<noteq> w \<longrightarrow> filters_type (clickType fl w) = w)
   \<and> filters_color (clickType fl w) = filters_color fl
   \<and> (filters_color fl = [] \<longrightarrow> clickColor (clickColor fl v) v = fl)
   \<and> (filters_type fl = [] \<longrightarrow> clickType (clickType fl v) v = fl)"
  by (simp add: clickColor_def clickType_def handleColorSelect_def handleTypeSelect_def
      onColorSelect_def onSelect_def)

section \<open>Search terms with a numeric prefix\<close>

lemma isRadixDigit_10: "isRadixDigit 10 c \<longleftrightarrow> isDecimalDigit c"
  by (auto simp: isRadixDigit_def digitVal_def isDecimalDigit_def)

lemma isRadixDigit_16: "isRadixDigit 16 c \<longleftrightarrow> isHexDigit c"
  by (auto simp: isRadixDigit_def digitVal_def isHexDigit_def)

lemma roundToDouble_not_NaN: "roundToDouble x \<noteq> NaN"
  by (simp add: roundToDouble_def Let_def)

lemma signOf_cases: "signOf t = 1 \<or> signOf t = - 1"
  by (simp add: signOf_def Let_def)

text \<open>A signed integer of magnitude at most \<open>2 ^ 53\<close> is its own number value.\<close>

lemma roundToDouble_signed:
  assumes "v \<le> 2 ^ 53"
  shows "roundToDouble (of_int (signOf t * int v)) = Finite (of_int (signOf t * int v))"
proof (rule roundToDouble_int)
  from assms have "int v \<le> 2 ^ 53"
    by (metis of_nat_le_iff of_nat_numeral of_nat_power)
  then show "\<bar>signOf t * int v\<bar> \<le> 2 ^ 53"
    using signOf_cases [of t] by auto
qed

text \<open>\<open>parseInt\<close> in terms of the sign and the unsigned rest of the term.\<close>

lemma parseInt_unsigned:
  "parseInt t =
     (let R = (if hexPrefix (unsigned t) then 16 else 10);
          S2 = (if hexPrefix (unsigned t) then drop 2 (unsigned t) else unsigned t);
          Z = takeWhile (isRadixDigit R) S2
      in if Z = [] then NaN else roundToDouble (of_int (signOf t * int (digitsValue R Z))))"
  by (simp add: parseInt_def unsigned_def signOf_def hexPrefix_def Let_def)

lemma parseInt_NaN_decimal:
  assumes "\<not> hexPrefix (unsigned t)"
  shows "parseInt t = NaN \<longleftrightarrow> unsigned t = [] \<or> \<not> isDecimalDigit (hd (unsigned t))"
  using assms
  by (cases "unsigned t")
    (simp_all add: parseInt_unsigned Let_def isRadixDigit_10 roundToDouble_not_NaN)

lemma takeWhile_run:
  assumes "\<forall>c\<in>set ds. P c" and "rest = [] \<or> \<not> P (hd rest)"
  shows "takeWhile P (ds @ rest) = ds"
proof -
  have "takeWhile P rest = []"
    using assms(2) by (cases rest) auto
  with assms(1) show ?thesis
    by (simp add: takeWhile_append2)
qed

lemma parseInt_decimal_prefix:
  assumes "unsigned t = ds @ rest"
    and "ds \<noteq> []" and "\<forall>c\<in>set ds. isDecimalDigit c"
    and "rest = [] \<or> \<not> isDecimalDigit (hd rest)"
    and "\<not> hexPrefix (ds @ rest)"
    and "digitsValue 10 ds \<le> 2 ^ 53"
  shows "parseInt t = Finite (of_int (signOf t * int (digitsValue 10 ds)))"
proof -
  have z: "takeWhile (isRadixDigit 10) (ds @ rest) = ds"
    using assms(3,4) by (intro takeWhile_run) (simp_all add: isRadixDigit_10)
  have "parseInt t = roundToDouble (of_int (signOf t * int (digitsValue 10 ds)))"
    unfolding parseInt_unsigned assms(1) Let_def
    using assms(2,5) by (simp add: z)
  then show ?thesis
    by (simp only: roundToDouble_signed [OF assms(6)])
qed

lemma parseInt_hex_prefix:
  assumes "hexPrefix (unsigned t)" and "drop 2 (unsigned t) = hs @ rest"
    and "\<forall>c\<in>set hs. isHexDigit c" and "rest = [] \<or> \<not> isHexDigit (hd rest)"
  shows "hs = [] \<longrightarrow> parseInt t = NaN"
    and "hs \<noteq> [] \<and> digitsValue 16 hs \<le> 2 ^ 53
      \<longrightarrow> parseInt t = Finite (of_int (signOf t * int (digitsValue 16 hs)))"
proof -
  have z: "takeWhile (isRadixDigit 16) (hs @ rest) = hs"
    using assms(3,4) by (intro takeWhile_run) (simp_all add: isRadixDigit_16)
  from assms(1) have "parseInt t =
      (if takeWhile (isRadixDigit 16) (drop 2 (unsigned t)) = [] then NaN
       else roundToDouble (of_int (signOf t
         * int (digitsValue 16 (takeWhile (isRadixDigit 16) (drop 2 (unsigned t)))))))"
    by (simp add: parseInt_unsigned Let_def)
  then have p: "parseInt t =
      (if hs = [] then NaN else roundToDouble (of_int (signOf t * int (digitsValue 16 hs))))"
    by (simp only: assms(2) z)
  then show "hs = [] \<longrightarrow> parseInt t = NaN"
    by simp
  show "hs \<noteq> [] \<and> digitsValue 16 hs \<le> 2 ^ 53
      \<longrightarrow> parseInt t = Finite (of_int (signOf t * int (digitsValue 16 hs)))"
  proof
    assume a: "hs \<noteq> [] \<and> digitsValue 16 hs \<le> 2 ^ 53"
    then have "digitsValue 16 hs \<le> 2 ^ 53" ..
    from roundToDouble_signed [OF this, of t] a p
    show "parseInt t = Finite (of_int (signOf t * int (digitsValue 16 hs)))"
      by (simp only: if_False)
  qed
qed

text \<open>
  Claim C10, as stated: a search term whose leading characters form an integer followed
  by non-digit characters has its year branch evaluated with that integer, and the
  branch is disabled only when the term has no leading integer. It fails for terms that
  open with \<open>0x\<close>: "0x10" starts with the integer 0 followed by the non-digit x, yet
  \<open>parseInt\<close> reads it in radix 16 as 16, so the year 5 (in the decade of 0) does not
  match; and "0x" starts with the integer 0, yet \<open>parseInt\<close> gives \<open>NaN\<close> and the
  branch is disabled. It also fails for a long run of digits, which \<open>parseInt\<close> rounds
  to a double: "9007199254740993x" is read as 9007199254740992.
\<close>

theorem hex_prefix_counterexample:
  "isDecimalDigit CHR ''0'' \<and> \<not> isDecimalDigit CHR ''x'' \<and> digitsValue 10 ''0'' = 0
   \<and> parseInt ''0x10'' = Finite 16 \<and> isInDecade (Finite 5) (Finite 0)
   \<and> \<not> yearMatch ''0x10'' (Finite 5) \<and> parseInt ''0x'' = NaN
   \<and> digitsValue 10 ''9007199254740993'' = 9007199254740993
   \<and> parseInt ''9007199254740993x'' = Finite 9007199254740992"
proof -
  have "isInDecade (Finite 5) (Finite 0)" and "\<not> isInDecade (Finite 5) (Finite 16)"
    using isInDecade_bounded [of 0 "Finite 5"] isInDecade_bounded [of 16 "Finite 5"]
    by simp_all
  moreover have "parseInt ''0x10'' = Finite 16" and "parseInt ''0x'' = NaN"
    by (simp_all add: js_eval)
  moreover have "isDecimalDigit CHR ''0''" and "\<not> isDecimalDigit CHR ''x''"
    and "digitsValue 10 ''0'' = 0"
    by (simp_all add: js_eval isDecimalDigit_def)
  moreover have "digitsValue 10 ''9007199254740993'' = 9007199254740993"
    by (simp add: js_eval)
  moreover have "parseInt ''9007199254740993x'' = Finite 9007199254740992"
    by (simp add: js_eval round_9007199254740993)
  ultimately show ?thesis
    by (simp add: yearMatch_def isNaN_def)
qed

text \<open>
  Claim C10, amended. For every search term that, after its leading white space and one
  optional sign, consists of a non-empty run of decimal digits followed by nothing or by
  a character that is not a decimal digit, whose run does not open with \<open>0x\<close> or \<open>0X\<close>
  and has a value of at most \<open>2 ^ 53\<close>, \<open>parseInt\<close> gives the signed decimal value of
  the run and the year branch is the decade test against that value. For every search
  term that, after white space and sign, does not open with \<open>0x\<close> or \<open>0X\<close>, the branch
  is disabled exactly when no decimal digit comes next. For every search term that,
  after white space and sign, opens with \<open>0x\<close> or \<open>0X\<close>, the run of hexadecimal digits
  that follows is read in radix 16: an empty run disables the branch, and a run of value
  at most \<open>2 ^ 53\<close> gives the signed value and the decade test against it. In every
  case the branch is false when \<open>parseInt\<close> gives \<open>NaN\<close> and the decade test against
  the number \<open>parseInt\<close> gives otherwise.
\<close>

theorem numeric_prefix_year_branch:
  "(unsigned t = ds @ rest \<and> ds \<noteq> [] \<and> (\<forall>c\<in>set ds. isDecimalDigit c)
      \<and> (rest = [] \<or> \<not> isDecimalDigit (hd rest)) \<and> \<not> hexPrefix (ds @ rest)
      \<and> digitsValue 10 ds \<le> 2 ^ 53
     \<longrightarrow> parseInt t = Finite (of_int (signOf t * int (digitsValue 10 ds)))
        \<and> yearMatch t y = isInDecade y (Finite (of_int (signOf t * int (digitsValue 10 ds)))))
   \<and> (\<not> hexPrefix (unsigned t)
     \<longrightarrow> (parseInt t = NaN \<longleftrightarrow> unsigned t = [] \<or> \<not> isDecimalDigit (hd (unsigned t))))
   \<and> (hexPrefix (unsigned t) \<and> drop 2 (unsigned t) = hs @ after
      \<and> (\<forall>c\<in>set hs. isHexDigit c) \<and> (after = [] \<or> \<not> isHexDigit (hd after))
     \<longrightarrow> (hs = [] \<longrightarrow> parseInt t = NaN)
        \<and> (hs \<noteq> [] \<and> digitsValue 16 hs \<le> 2 ^ 53
            \<longrightarrow> parseInt t = Finite (of_int (signOf t * int (digitsValue 16 hs)))
              \<and> yearMatch t y = isInDecade y (Finite (of_int (signOf t * int (digitsValue 16 hs))))))
   \<and> (parseInt t = NaN \<longrightarrow> \<not> yearMatch t y)
   \<and> (parseInt t \<noteq> NaN \<longrightarrow> yearMatch t y = isInDecade y (parseInt t))"
proof -
  have enabled: "yearMatch t y = isInDecade y (Finite v)" if "parseInt t = Finite v" for v
    using that by (simp add: yearMatch_def isNaN_def)
  have 1: "unsigned t = ds @ rest \<and> ds \<noteq> [] \<and> (\<forall>c\<in>set ds. isDecimalDigit c)
      \<and> (rest = [] \<or> \<not> isDecimalDigit (hd rest)) \<and> \<not> hexPrefix (ds @ rest)
      \<and> digitsValue 10 ds \<le> 2 ^ 53
     \<longrightarrow> parseInt t = Finite (of_int (signOf t * int (digitsValue 10 ds)))
        \<and> yearMatch t y = isInDecade y (Finite (of_int (signOf t * int (digitsValue 10 ds))))"
  proof
    assume a: "unsigned t = ds @ rest \<and> ds \<noteq> [] \<and> (\<forall>c\<in>set ds. isDecimalDigit c)
      \<and> (rest = [] \<or> \<not> isDecimalDigit (hd rest)) \<and> \<not> hexPrefix (ds @ rest)
      \<and> digitsValue 10 ds \<le> 2 ^ 53"
    then have "parseInt t = Finite (of_int (signOf t * int (digitsValue 10 ds)))"
      by (intro parseInt_decimal_prefix [of t ds rest]) simp_all
    with enabled show "parseInt t = Finite (of_int (signOf t * int (digitsValue 10 ds)))
        \<and> yearMatch t y = isInDecade y (Finite (of_int (signOf t * int (digitsValue 10 ds))))"
      by simp
  qed
  have 2: "\<not> hexPrefix (unsigned t)
     \<longrightarrow> (parseInt t = NaN \<longleftrightarrow> unsigned t = [] \<or> \<not> isDecimalDigit (hd (unsigned t)))"
    using parseInt_NaN_decimal by blast
  have 3: "hexPrefix (unsigned t) \<and> drop 2 (unsigned t) = hs @ after
      \<and> (\<forall>c\<in>set hs. isHexDigit c) \<and> (after = [] \<or> \<not> isHexDigit (hd after))
     \<longrightarrow> (hs = [] \<longrightarrow> parseInt t = NaN)
        \<and> (hs \<noteq> [] \<and> digitsValue 16 hs \<le> 2 ^ 53
            \<longrightarrow> parseInt t = Finite (of_int (signOf t * int (digitsValue 16 hs)))
              \<and> yearMatch t y = isInDecade y (Finite (of_int (signOf t * int (digitsValue 16 hs)))))"
  proof
    assume a: "hexPrefix (unsigned t) \<and> drop 2 (unsigned t) = hs @ after
      \<and> (\<forall>c\<in>set hs. isHexDigit c) \<and> (after = [] \<or> \<not> isHexDigit (hd after))"
    then have h: "hs = [] \<longrightarrow> parseInt t = NaN"
      "hs \<noteq> [] \<and> digitsValue 16 hs \<le> 2 ^ 53
        \<longrightarrow> parseInt t = Finite (of_int (signOf t * int (digitsValue 16 hs)))"
      using parseInt_hex_prefix [of t hs after] by simp_all
    with enabled show "(hs = [] \<longrightarrow> parseInt t = NaN)
        \<and> (hs \<noteq> [] \<and> digitsValue 16 hs \<le> 2 ^ 53
            \<longrightarrow> parseInt t = Finite (of_int (signOf t * int (digitsValue 16 hs)))
              \<and> yearMatch t y = isInDecade y (Finite (of_int (signOf t * int (digitsValue 16 hs)))))"
      by simp
  qed
  have 4: "parseInt t = NaN \<longrightarrow> \<not> yearMatch t y"
    by (simp add: yearMatch_def isNaN_def)
  have 5: "parseInt t \<noteq> NaN \<longrightarrow> yearMatch t y = isInDecade y (parseInt t)"
    by (simp add: yearMatch_def isNaN_def)
  from 1 2 3 4 5 show ?thesis
    by (intro conjI)
qed

theorem numeric_prefix_year_branch_witness:
  "parseInt ''1925a'' = Finite 1925 \<and> yearMatch ''1925a'' (Finite 1922)
   \<and> \<not> yearMatch ''1925a'' (Finite 1983)
   \<and> parseInt '' -7 BC'' = Finite (- 7) \<and> yearMatch '' -7 BC'' (Finite (- 3))
   \<and> parseInt ''year'' = NaN \<and> \<not> yearMatch ''year'' (Finite 2000)
   \<and> parseInt ''0x7C3 AD'' = Finite 1987 \<and> yearMatch ''0x7C3 AD'' (Finite 1983)
   \<and> parseInt ''0xyz'' = NaN \<and> \<not> yearMatch ''0xyz'' (Finite 0)"
proof -
  have h: "unsigned ''1925a'' = ''1925'' @ ''a'' \<and> ''1925'' \<noteq> []
     \<and> (\<forall>c\<in>set ''1925''. isDecimalDigit c)
     \<and> (''a'' = [] \<or> \<not> isDecimalDigit (hd ''a'')) \<and> \<not> hexPrefix (''1925'' @ ''a'')
     \<and> digitsValue 10 ''1925'' \<le> 2 ^ 53"
    by (simp add: isDecimalDigit_def code_def hexPrefix_def unsigned_def isWhiteSpace_def
        digitsValue_def digitVal_def)
  have v: "signOf ''1925a'' * int (digitsValue 10 ''1925'') = 1925"
    by (simp add: js_eval signOf_def)
  have h': "unsigned '' -7 BC'' = ''7'' @ '' BC'' \<and> ''7'' \<noteq> []
     \<and> (\<forall>c\<in>set ''7''. isDecimalDigit c)
     \<and> ('' BC'' = [] \<or> \<not> isDecimalDigit (hd '' BC'')) \<and> \<not> hexPrefix (''7'' @ '' BC'')
     \<and> digitsValue 10 ''7'' \<le> 2 ^ 53"
    by (simp add: isDecimalDigit_def code_def hexPrefix_def unsigned_def isWhiteSpace_def
        digitsValue_def digitVal_def)
  have v': "signOf '' -7 BC'' * int (digitsValue 10 ''7'') = - 7"
    by (simp add: js_eval signOf_def)
  have g: "\<not> hexPrefix (unsigned ''year'') \<and> \<not> isDecimalDigit (hd (unsigned ''year''))"
    by (simp add: isDecimalDigit_def code_def hexPrefix_def unsigned_def isWhiteSpace_def)
  have x: "hexPrefix (unsigned ''0x7C3 AD'') \<and> drop 2 (unsigned ''0x7C3 AD'') = ''7C3'' @ '' AD''
     \<and> (\<forall>c\<in>set ''7C3''. isHexDigit c) \<and> ('' AD'' = [] \<or> \<not> isHexDigit (hd '' AD''))
     \<and> ''7C3'' \<noteq> [] \<and> digitsValue 16 ''7C3'' \<le> 2 ^ 53"
    by (simp add: isHexDigit_def code_def hexPrefix_def unsigned_def isWhiteSpace_def
        digitsValue_def digitVal_def)
  have w: "signOf ''0x7C3 AD'' * int (digitsValue 16 ''7C3'') = 1987"
    by (simp add: js_eval signOf_def)
  have x': "hexPrefix (unsigned ''0xyz'') \<and> drop 2 (unsigned ''0xyz'') = [] @ ''yz''
     \<and> (\<forall>c\<in>set []. isHexDigit c) \<and> (''yz'' = [] \<or> \<not> isHexDigit (hd ''yz''))"
    by (simp add: isHexDigit_def code_def hexPrefix_def unsigned_def isWhiteSpace_def)
  have d: "isInDecade (Finite 1922) (Finite 1925) \<and> \<not> isInDecade (Finite 1983) (Finite 1925)
     \<and> isInDecade (Finite (- 3)) (Finite (- 7)) \<and> isInDecade (Finite 1983) (Finite 1987)"
    using isInDecade_bounded [of 1925 "Finite 1922"] isInDecade_bounded [of 1925 "Finite 1983"]
      isInDecade_bounded [of "- 7" "Finite (- 3)"] isInDecade_bounded [of 1987 "Finite 1983"]
    by simp
  from numeric_prefix_year_branch [of "''1925a''" "''1925''" "''a''" "Finite 1922"] h v d
  have 1: "parseInt ''1925a'' = Finite 1925 \<and> yearMatch ''1925a'' (Finite 1922)"
    by simp
  from numeric_prefix_year_branch [of "''1925a''" "''1925''" "''a''" "Finite 1983"] h v d
  have 2: "\<not> yearMatch ''1925a'' (Finite 1983)"
    by simp
  from numeric_prefix_year_branch [of "'' -7 BC''" "''7''" "'' BC''" "Finite (- 3)"] h' v' d
  have 3: "parseInt '' -7 BC'' = Finite (- 7) \<and> yearMatch '' -7 BC'' (Finite (- 3))"
    by simp
  from numeric_prefix_year_branch [of "''year''" "[]" "[]" "Finite 2000"] g
  have 4: "parseInt ''year'' = NaN \<and> \<not> yearMatch ''year'' (Finite 2000)"
    by blast
  from numeric_prefix_year_branch [of "''0x7C3 AD''" _ _ "Finite 1983" "''7C3''" "'' AD''"] x w d
  have 5: "parseInt ''0x7C3 AD'' = Finite 1987 \<and> yearMatch ''0x7C3 AD'' (Finite 1983)"
    by simp
  from numeric_prefix_year_branch [of "''0xyz''" _ _ "Finite 0" "[]" "''yz''"] x'
  have 6: "parseInt ''0xyz'' = NaN \<and> \<not> yearMatch ''0xyz'' (Finite 0)"
    by blast
  from 1 2 3 4 5 6 show ?thesis by simp
qed

section \<open>Concrete instances\<close>

text \<open>The theorems above at concrete queries and identifiers.\<close>

theorem matching_predicate_witness:
  "containsIgnoringCase ''Catalunya Radio'' ''RADIO''
   \<and> \<not> containsIgnoringCase ''Barcelona Archives'' ''RADIO''
   \<and> filteredLogos ''RADIO'' noFilters
        [\<lparr>logo_id = 1, logo_name = ''Barcelona Archives'', logo_year = Finite 1922,
          logo_color = ''blue'', logo_type = ''serif'', logo_imageUrl = ''/logos/a.png'',
          logo_source = ''https://www''\<rparr>,
         \<lparr>logo_id = 2, logo_name = ''Catalunya Radio'', logo_year = Finite 1983,
          logo_color = ''red'', logo_type = ''sansserif'', logo_imageUrl = ''/logos/b.png'',
          logo_source = ''https://www''\<rparr>]
      = [\<lparr>logo_id = 2, logo_name = ''Catalunya Radio'', logo_year = Finite 1983,
          logo_color = ''red'', logo_type = ''sansserif'', logo_imageUrl = ''/logos/b.png'',
          logo_source = ''https://www''\<rparr>]
   \<and> filteredLogos [] \<lparr>filters_color = ''blue'', filters_type = []\<rparr>
        [\<lparr>logo_id = 1, logo_name = ''Barcelona Archives'', logo_year = Finite 1922,
          logo_color = ''blue'', logo_type = ''serif'', logo_imageUrl = ''/logos/a.png'',
          logo_source = ''https://www''\<rparr>,
         \<lparr>logo_id = 2, logo_name = ''Catalunya Radio'', logo_year = Finite 1983,
          logo_color = ''red'', logo_type = ''sansserif'', logo_imageUrl = ''/logos/b.png'',
          logo_source = ''https://www''\<rparr>]
      = [\<lparr>logo_id = 1, logo_name = ''Barcelona Archives'', logo_year = Finite 1922,
          logo_color = ''blue'', logo_type = ''serif'', logo_imageUrl = ''/logos/a.png'',
          logo_source = ''https://www''\<rparr>]
   \<and> filteredLogos [] \<lparr>filters_color = [], filters_type = ''sansserif''\<rparr>
        [\<lparr>logo_id = 1, logo_name = ''Barcelona Archives'', logo_year = Finite 1922,
          logo_color = ''blue'', logo_type = ''serif'', logo_imageUrl = ''/logos/a.png'',
          logo_source = ''https://www''\<rparr>,
         \<lparr>logo_id = 2, logo_name = ''Catalunya Radio'', logo_year = Finite 1983,
          logo_color = ''red'', logo_type = ''sansserif'', logo_imageUrl = ''/logos/b.png'',
          logo_source = ''https://www''\<rparr>]
      = [\<lparr>logo_id = 2, logo_name = ''Catalunya Radio'', logo_year = Finite 1983,
          logo_color = ''red'', logo_type = ''sansserif'', logo_imageUrl = ''/logos/b.png'',
          logo_source = ''https://www''\<rparr>]
   \<and> parseInt ''1925'' = Finite 1925
   \<and> filteredLogos ''1925'' noFilters
        [\<lparr>logo_id = 1, logo_name = ''Barcelona Archives'', logo_year = Finite 1922,
          logo_color = ''blue'', logo_type = ''serif'', logo_imageUrl = ''/logos/a.png'',
          logo_source = ''https://www''\<rparr>,
         \<lparr>logo_id = 2, logo_name = ''Catalunya Radio'', logo_year = Finite 1983,
          logo_color = ''red'', logo_type = ''sansserif'', logo_imageUrl = ''/logos/b.png'',
          logo_source = ''https://www''\<rparr>]
      = [\<lparr>logo_id = 1, logo_name = ''Barcelona Archives'', logo_year = Finite 1922,
          logo_color = ''blue'', logo_type = ''serif'', logo_imageUrl = ''/logos/a.png'',
          logo_source = ''https://www''\<rparr>]
   \<and> parseInt ''Radio'' = NaN \<and> \<not> yearMatch ''Radio'' (Finite 1983)"
proof -
  have n: "parseInt ''Radio'' = NaN" and m: "parseInt ''1925'' = Finite (of_int 1925)"
    and e: "parseInt [] = NaN" and u: "parseInt ''RADIO'' = NaN"
    by (simp_all add: js_eval)
  have c: "containsIgnoringCase ''Catalunya Radio'' ''RADIO''"
    "\<not> containsIgnoringCase ''Barcelona Archives'' ''RADIO''"
    "\<not> containsIgnoringCase ''Barcelona Archives'' ''1925''"
    "\<not> containsIgnoringCase ''Catalunya Radio'' ''1925''"
    unfolding includes_lower_iff [symmetric] by (simp_all add: js_eval)
  note mp = matching_predicate [of _ _ "[\<lparr>logo_id = 1, logo_name = ''Barcelona Archives'', logo_year = Finite 1922,
          logo_color = ''blue'', logo_type = ''serif'', logo_imageUrl = ''/logos/a.png'',
          logo_source = ''https://www''\<rparr>,
         \<lparr>logo_id = 2, logo_name = ''Catalunya Radio'', logo_year = Finite 1983,
          logo_color = ''red'', logo_type = ''sansserif'', logo_imageUrl = ''/logos/b.png'',
          logo_source = ''https://www''\<rparr>]"]
  have y: "\<not> yearMatch ''Radio'' (Finite 1983)" "\<not> yearMatch ''RADIO'' y" for y
    using matching_predicate [of "''Radio''" noFilters "[]" "Finite 1983"] n
      matching_predicate [of "''RADIO''" noFilters "[]" y] u
    by blast+
  have y': "\<not> yearMatch [] y" for y
    using matching_predicate [of "[]" noFilters "[]" y] e by blast
  from matching_predicate [of "''1925''" noFilters "[]" "Finite 1922" 1925]
  have "parseInt ''1925'' = Finite (of_int 1925) \<and> \<bar>1925 :: int\<bar> \<le> 2 ^ 53 - 10 \<longrightarrow>
      (yearMatch ''1925'' (Finite 1922) \<longleftrightarrow>
        (\<exists>v. Finite 1922 = Finite v \<and> of_int (1925 div 10 * 10) \<le> v
           \<and> v \<le> of_int (1925 div 10 * 10 + 9)))"
    by blast
  with m have d1: "yearMatch ''1925'' (Finite 1922)"
    by simp
  from matching_predicate [of "''1925''" noFilters "[]" "Finite 1983" 1925]
  have "parseInt ''1925'' = Finite (of_int 1925) \<and> \<bar>1925 :: int\<bar> \<le> 2 ^ 53 - 10 \<longrightarrow>
      (yearMatch ''1925'' (Finite 1983) \<longleftrightarrow>
        (\<exists>v. Finite 1983 = Finite v \<and> of_int (1925 div 10 * 10) \<le> v
           \<and> v \<le> of_int (1925 div 10 * 10 + 9)))"
    by blast
  with m have d2: "\<not> yearMatch ''1925'' (Finite 1983)"
    by simp
  note d = d1 d2
  have e': "containsIgnoringCase s []" for s
    using matching_predicate [of "[]" noFilters "[]" NaN 0 s] by blast
  have 1: "filteredLogos ''RADIO'' noFilters
        [\<lparr>logo_id = 1, logo_name = ''Barcelona Archives'', logo_year = Finite 1922,
          logo_color = ''blue'', logo_type = ''serif'', logo_imageUrl = ''/logos/a.png'',
          logo_source = ''https://www''\<rparr>,
         \<lparr>logo_id = 2, logo_name = ''Catalunya Radio'', logo_year = Finite 1983,
          logo_color = ''red'', logo_type = ''sansserif'', logo_imageUrl = ''/logos/b.png'',
          logo_source = ''https://www''\<rparr>]
      = [\<lparr>logo_id = 2, logo_name = ''Catalunya Radio'', logo_year = Finite 1983,
          logo_color = ''red'', logo_type = ''sansserif'', logo_imageUrl = ''/logos/b.png'',
          logo_source = ''https://www''\<rparr>]"
    using mp [of "''RADIO''" noFilters]
    by (simp add: y noFilters_def sameLetter_def isCapital_def code_def)
  have 2: "filteredLogos [] \<lparr>filters_color = ''blue'', filters_type = []\<rparr>
        [\<lparr>logo_id = 1, logo_name = ''Barcelona Archives'', logo_year = Finite 1922,
          logo_color = ''blue'', logo_type = ''serif'', logo_imageUrl = ''/logos/a.png'',
          logo_source = ''https://www''\<rparr>,
         \<lparr>logo_id = 2, logo_name = ''Catalunya Radio'', logo_year = Finite 1983,
          logo_color = ''red'', logo_type = ''sansserif'', logo_imageUrl = ''/logos/b.png'',
          logo_source = ''https://www''\<rparr>]
      = [\<lparr>logo_id = 1, logo_name = ''Barcelona Archives'', logo_year = Finite 1922,
          logo_color = ''blue'', logo_type = ''serif'', logo_imageUrl = ''/logos/a.png'',
          logo_source = ''https://www''\<rparr>]"
    using mp [of "[]" "\<lparr>filters_color = ''blue'', filters_type = []\<rparr>"] by (simp add: e')
  have 3: "filteredLogos [] \<lparr>filters_color = [], filters_type = ''sansserif''\<rparr>
        [\<lparr>logo_id = 1, logo_name = ''Barcelona Archives'', logo_year = Finite 1922,
          logo_color = ''blue'', logo_type = ''serif'', logo_imageUrl = ''/logos/a.png'',
          logo_source = ''https://www''\<rparr>,
         \<lparr>logo_id = 2, logo_name = ''Catalunya Radio'', logo_year = Finite 1983,
          logo_color = ''red'', logo_type = ''sansserif'', logo_imageUrl = ''/logos/b.png'',
          logo_source = ''https://www''\<rparr>]
      = [\<lparr>logo_id = 2, logo_name = ''Catalunya Radio'', logo_year = Finite 1983,
          logo_color = ''red'', logo_type = ''sansserif'', logo_imageUrl = ''/logos/b.png'',
          logo_source = ''https://www''\<rparr>]"
    using mp [of "[]" "\<lparr>filters_color = [], filters_type = ''sansserif''\<rparr>"] by (simp add: e')
  have 4: "filteredLogos ''1925'' noFilters
        [\<lparr>logo_id = 1, logo_name = ''Barcelona Archives'', logo_year = Finite 1922,
          logo_color = ''blue'', logo_type = ''serif'', logo_imageUrl = ''/logos/a.png'',
          logo_source = ''https://www''\<rparr>,
         \<lparr>logo_id = 2, logo_name = ''Catalunya Radio'', logo_year = Finite 1983,
          logo_color = ''red'', logo_type = ''sansserif'', logo_imageUrl = ''/logos/b.png'',
          logo_source = ''https://www''\<rparr>]
      = [\<lparr>logo_id = 1, logo_name = ''Barcelona Archives'', logo_year = Finite 1922,
          logo_color = ''blue'', logo_type = ''serif'', logo_imageUrl = ''/logos/a.png'',
          logo_source = ''https://www''\<rparr>]"
    using mp [of "''1925''" noFilters]
    by (simp add: d noFilters_def sameLetter_def isCapital_def code_def)
  from c(1,2) 1 2 3 m 4 n y(1) show ?thesis by simp
qed

theorem filter_order_identity_witness:
  "filteredLogos [] noFilters [fallbackLogo 1, fallbackLogo 2] = [fallbackLogo 1, fallbackLogo 2]
   \<and> subseq (filteredLogos ''x'' noFilters [fallbackLogo 1]) [fallbackLogo 1]"
  using filter_order_identity [of "[]" noFilters "[fallbackLogo 1, fallbackLogo 2]"]
    filter_order_identity [of "''x''" noFilters "[fallbackLogo 1]"]
  by simp

theorem sansserif_never_matches_witness:
  "parseLogoFromFilename ''CatalunyaRadio|Red|wwwccmacat|SansSerif|1983.png'' 2
     = Inr \<lparr>logo_id = 2, logo_name = ''Catalunya Radio'', logo_year = Finite 1983,
            logo_color = ''red'', logo_type = ''sansserif'',
            logo_imageUrl = ''/logos/CatalunyaRadio|Red|wwwccmacat|SansSerif|1983.png'',
            logo_source = ''https://wwwccmacat''\<rparr>
   \<and> \<not> matchesLogo [] \<lparr>filters_color = [], filters_type = ''sans-serif''\<rparr>
         \<lparr>logo_id = 2, logo_name = ''Catalunya Radio'', logo_year = Finite 1983,
          logo_color = ''red'', logo_type = ''sansserif'',
          logo_imageUrl = ''/logos/CatalunyaRadio|Red|wwwccmacat|SansSerif|1983.png'',
          logo_source = ''https://wwwccmacat''\<rparr>"
proof -
  have b: "parseBody ''CatalunyaRadio|Red|wwwccmacat|SansSerif|1983.png'' 2
     = Inr \<lparr>logo_id = 2, logo_name = ''Catalunya Radio'', logo_year = Finite 1983,
            logo_color = ''red'', logo_type = ''sansserif'',
            logo_imageUrl = ''/logos/CatalunyaRadio|Red|wwwccmacat|SansSerif|1983.png'',
            logo_source = ''https://wwwccmacat''\<rparr>"
    by (simp add: js_eval)
  have t: "split CHR ''|'' (hd (split CHR ''.'' ''CatalunyaRadio|Red|wwwccmacat|SansSerif|1983.png'')) ! 3
     = ''SansSerif''"
    by simp
  from sansserif_never_matches [OF b t, of "[]" "\<lparr>filters_color = [], filters_type = []\<rparr>"]
  show ?thesis by simp
qed

theorem toggle_single_select_witness:
  "clickColor \<lparr>filters_color = ''blue'', filters_type = []\<rparr> ''blue''
     = \<lparr>filters_color = [], filters_type = []\<rparr>
   \<and> filters_color (clickColor \<lparr>filters_color = ''blue'', filters_type = []\<rparr> ''red'') = ''red''
   \<and> clickType (clickType \<lparr>filters_color = ''blue'', filters_type = []\<rparr> ''serif'') ''serif''
     = \<lparr>filters_color = ''blue'', filters_type = []\<rparr>"
  using toggle_single_select [of "\<lparr>filters_color = ''blue'', filters_type = []\<rparr>" "''blue''" "''red''"]
    toggle_single_select [of "\<lparr>filters_color = ''blue'', filters_type = []\<rparr>" "''serif''" "''red''"]
  by (simp add: clickColor_def handleColorSelect_def onColorSelect_def)


end
